theory Spec2Isabelle
  imports Complex_Main
begin

section \<open>RySimpleRangeTester: data model\<close>

text \<open>
  The class template \<open>RySimpleRangeTester<T>\<close> of \<open>RySimpleRangeTester.h\<close>. The type
  parameter \<open>T\<close> is the type variable \<open>'a\<close>. \<open>std::string\<close> is \<open>string\<close> (a list of
  bytes).

  Both structs have members called \<open>name\<close> and \<open>description\<close>; they are written
  with their struct as a qualifier (\<open>TestItem.name\<close>, \<open>TestResult.name\<close>).
\<close>

record 'a TestItem =
  item :: 'a
  name :: string
  description :: string
  expectedToFail :: bool

text \<open>\<open>duration\<close> is a \<open>std::chrono::milliseconds\<close>: a signed count of milliseconds.\<close>

record TestResult =
  name :: string
  success :: bool
  error :: string
  duration :: int
  wasExpectedToFail :: bool
  description :: string

text \<open>
  What one invocation of the \<open>TestCallback\<close> (a \<open>std::function<bool(const T&)>\<close>)
  does: it returns a boolean, or it throws an object derived from \<open>std::exception\<close>
  whose \<open>what()\<close> is the given message, or it throws an object of some other type.
  The callback is taken to be a function of the value it is given.
\<close>

datatype outcome = Returns bool | ThrowsStd string | ThrowsOther

type_synonym 'a TestCallback = "'a \<Rightarrow> outcome"

text \<open>
  The exceptions that leave \<open>run()\<close>: the \<open>std::runtime_error\<close> of \<open>runTests\<close>, and
  an object thrown by the callback that the handler
  \<open>catch (const std::exception& e)\<close> does not match.
\<close>

datatype error = RuntimeError string | Uncaught

text \<open>
  The private members. \<open>m_testItems\<close> is a \<open>std::unordered_map<std::string, TestItem>\<close>,
  modelled as an association list whose order is the order of iteration. The
  standard leaves that order unspecified; the model iterates in the order of
  insertion, and the theorems about a run are stated for every list, hence for
  every order. That the keys of the list are pairwise distinct is the invariant
  \<open>unique_keys\<close> below. An empty \<open>std::function\<close> is \<open>None\<close>.
\<close>

record 'a RySimpleRangeTester =
  m_testItems :: "(string \<times> 'a TestItem) list"
  m_testCallback :: "'a TestCallback option"
  m_results :: "TestResult list"

text \<open>The default constructor: nothing stored, no callback, no results.\<close>

definition RySimpleRangeTester :: "'a RySimpleRangeTester" where
  "RySimpleRangeTester = \<lparr>m_testItems = [], m_testCallback = None, m_results = []\<rparr>"

definition contains :: "(string \<times> 'v) list \<Rightarrow> string \<Rightarrow> bool" where
  "contains store k = (k \<in> set (map fst store))"

text \<open>\<open>unordered_map::find\<close>: the entry stored under the key, if there is one.\<close>

fun find_entry :: "(string \<times> 'v) list \<Rightarrow> string \<Rightarrow> 'v option" where
  "find_entry [] k = None"
| "find_entry ((a, v) # ps) k = (if a = k then Some v else find_entry ps k)"

definition unique_keys :: "(string \<times> 'v) list \<Rightarrow> bool" where
  "unique_keys store = distinct (map fst store)"

section \<open>The name generator\<close>

text \<open>
  \<open>std::format("{}", counter)\<close> for a \<open>size_t\<close>: the decimal digits, most significant
  first, no leading zero.
\<close>

definition digit_char :: "nat \<Rightarrow> char" where
  "digit_char d = char_of (48 + d)"

function to_string :: "nat \<Rightarrow> string" where
  "to_string n = (if n < 10 then [digit_char n] else to_string (n div 10) @ [digit_char (n mod 10)])"
  by pat_completeness auto
termination
  by (relation "measure id") auto

declare to_string.simps [simp del]

text \<open>\<open>std::format("{}_{}", baseName, counter)\<close>.\<close>

definition format_name :: "string \<Rightarrow> nat \<Rightarrow> string" where
  "format_name baseName counter = baseName @ ''_'' @ to_string counter"

lemma of_char_digit_char: "d < 10 \<Longrightarrow> (of_char (digit_char d) :: nat) = 48 + d"
  by (simp add: digit_char_def)

lemma digit_char_inj: "d < 10 \<Longrightarrow> e < 10 \<Longrightarrow> digit_char d = digit_char e \<Longrightarrow> d = e"
proof -
  assume d: "d < 10" and e: "e < 10" and eq: "digit_char d = digit_char e"
  from eq have "(of_char (digit_char d) :: nat) = of_char (digit_char e)"
    by simp
  with d e show "d = e"
    by (simp add: of_char_digit_char)
qed

lemma to_string_last: "last (to_string n) = digit_char (n mod 10)"
  by (subst to_string.simps) simp

lemma to_string_butlast:
  "butlast (to_string n) = (if n < 10 then [] else to_string (n div 10))"
  by (subst to_string.simps) (simp add: butlast_append)

lemma to_string_nonempty: "to_string n \<noteq> []"
  by (subst to_string.simps) simp

lemma to_string_inj: "to_string n = to_string m \<Longrightarrow> n = m"
proof (induction n arbitrary: m rule: less_induct)
  case (less n)
  from less.prems have l: "digit_char (n mod 10) = digit_char (m mod 10)"
    using to_string_last by metis
  then have md: "n mod 10 = m mod 10"
    by (auto intro: digit_char_inj)
  from less.prems have b: "butlast (to_string n) = butlast (to_string m)"
    by simp
  show ?case
  proof (cases "n < 10")
    case True
    with b have "m < 10"
      by (auto simp: to_string_butlast to_string_nonempty split: if_splits
          dest: sym [of "[]"])
    with True md show ?thesis by simp
  next
    case False
    with b have m10: "\<not> m < 10"
      by (auto simp: to_string_butlast to_string_nonempty split: if_splits)
    with False b have "to_string (n div 10) = to_string (m div 10)"
      by (simp add: to_string_butlast)
    moreover from False have "n div 10 < n" by simp
    ultimately have "n div 10 = m div 10"
      using less.IH by blast
    with md show ?thesis
      by (metis div_mult_mod_eq)
  qed
qed

lemma format_name_inj: "format_name b n = format_name b m \<Longrightarrow> n = m"
  by (simp add: format_name_def to_string_inj)

text \<open>
  The \<open>do \<dots> while\<close> loop of \<open>generateUniqueName\<close>: format the candidate, step the
  counter, go round again while the candidate is a key of the store. The
  counter is a \<open>size_t\<close>; it starts at \<open>size() + 1\<close> and is stepped at most
  \<open>size() + 1\<close> times (lemma \<open>run_of_keys_bound\<close>), so it is a natural number
  here.
\<close>

lemma generate_loop_finite: "finite {n. format_name b n \<in> set ks}"
proof -
  have "inj (format_name b)"
    by (auto intro: injI format_name_inj)
  then have "finite (format_name b -` set ks)"
    by (intro finite_vimageI) simp_all
  then show ?thesis
    by (simp add: vimage_def)
qed

function generate_loop :: "string \<Rightarrow> (string \<times> 'v) list \<Rightarrow> nat \<Rightarrow> string" where
  "generate_loop baseName store counter =
     (let name = format_name baseName counter
      in if contains store name then generate_loop baseName store (counter + 1) else name)"
  by pat_completeness auto
termination
proof (relation "measure (\<lambda>(b, store, c). card {n. c \<le> n \<and> format_name b n \<in> set (map fst store)})",
    goal_cases)
  case 1
  show ?case by simp
next
  case (2 baseName store counter name)
  let ?S = "\<lambda>c. {n. c \<le> n \<and> format_name baseName n \<in> set (map fst store)}"
  have fin: "finite (?S counter)"
    by (rule finite_subset [OF _ generate_loop_finite [of baseName "map fst store"]]) auto
  from 2 have "counter \<in> ?S counter" and "counter \<notin> ?S (counter + 1)"
    by (simp_all add: contains_def)
  moreover have "?S (counter + 1) \<subseteq> ?S counter"
    by auto
  ultimately have "?S (counter + 1) \<subset> ?S counter"
    by blast
  with fin have "card (?S (counter + 1)) < card (?S counter)"
    by (rule psubset_card_mono)
  then show ?case by simp
qed

declare generate_loop.simps [simp del]

definition generateUniqueName :: "string \<Rightarrow> 'a RySimpleRangeTester \<Rightarrow> string" where
  "generateUniqueName baseName t =
     generate_loop baseName (m_testItems t) (length (m_testItems t) + 1)"

section \<open>The store operations\<close>

text \<open>
  \<open>unordered_map::try_emplace\<close>: nothing happens when the key is present;
  otherwise the key is copied into the new node first and the mapped value is
  built from the remaining arguments after it, so the \<open>std::move(effectiveName)\<close>
  among those arguments still sees the name.
\<close>

definition try_emplace :: "string \<Rightarrow> 'v \<Rightarrow> (string \<times> 'v) list \<Rightarrow> (string \<times> 'v) list" where
  "try_emplace k v store = (if contains store k then store else store @ [(k, v)])"

text \<open>
  \<open>add(const T& item, std::string_view name = "", std::string_view description = "")\<close>.
  Every mutating member returns \<open>*this\<close>; the model returns the new state.
\<close>

definition add :: "'a \<Rightarrow> string \<Rightarrow> string \<Rightarrow> 'a RySimpleRangeTester \<Rightarrow> 'a RySimpleRangeTester" where
  "add v nm desc t =
     (let effectiveName = (if nm = [] then generateUniqueName ''Test'' t else nm)
      in t\<lparr>m_testItems :=
             try_emplace effectiveName
               \<lparr>item = v, TestItem.name = effectiveName, TestItem.description = desc,
                expectedToFail = False\<rparr>
               (m_testItems t)\<rparr>)"

text \<open>\<open>add(TestItem testItem)\<close>.\<close>

definition add_TestItem :: "'a TestItem \<Rightarrow> 'a RySimpleRangeTester \<Rightarrow> 'a RySimpleRangeTester" where
  "add_TestItem testItem t =
     (let testItem = (if TestItem.name testItem = []
                      then testItem\<lparr>TestItem.name := generateUniqueName ''Test'' t\<rparr>
                      else testItem)
      in t\<lparr>m_testItems := try_emplace (TestItem.name testItem) testItem (m_testItems t)\<rparr>)"

text \<open>
  \<open>add(const Container<U>& items, std::string_view namePrefix = "Test")\<close> where \<open>U\<close>
  is \<open>T\<close>, and \<open>add(std::initializer_list<T> items, namePrefix)\<close>, whose body is the
  same loop.
\<close>

fun add_container :: "'a list \<Rightarrow> string \<Rightarrow> 'a RySimpleRangeTester \<Rightarrow> 'a RySimpleRangeTester" where
  "add_container [] namePrefix t = t"
| "add_container (x # items) namePrefix t =
     add_container items namePrefix (add x (generateUniqueName namePrefix t) [] t)"

definition add_initializer_list ::
  "'a list \<Rightarrow> string \<Rightarrow> 'a RySimpleRangeTester \<Rightarrow> 'a RySimpleRangeTester" where
  "add_initializer_list items namePrefix t = add_container items namePrefix t"

text \<open>The same template where \<open>U\<close> is \<open>TestItem\<close>: the prefix is not used.\<close>

fun add_container_TestItem ::
  "'a TestItem list \<Rightarrow> string \<Rightarrow> 'a RySimpleRangeTester \<Rightarrow> 'a RySimpleRangeTester" where
  "add_container_TestItem [] namePrefix t = t"
| "add_container_TestItem (x # items) namePrefix t =
     add_container_TestItem items namePrefix (add_TestItem x t)"

definition remove :: "string \<Rightarrow> 'a RySimpleRangeTester \<Rightarrow> 'a RySimpleRangeTester" where
  "remove nm t = t\<lparr>m_testItems := filter (\<lambda>(k, v). k \<noteq> nm) (m_testItems t)\<rparr>"

text \<open>
  The predicates given to \<open>removeIf\<close> and \<open>expectIf\<close> are functions of the item
  they are shown.
\<close>

definition removeIf :: "('a TestItem \<Rightarrow> bool) \<Rightarrow> 'a RySimpleRangeTester \<Rightarrow> 'a RySimpleRangeTester" where
  "removeIf pred t = t\<lparr>m_testItems := filter (\<lambda>(k, v). \<not> pred v) (m_testItems t)\<rparr>"

definition forEach :: "'a TestCallback \<Rightarrow> 'a RySimpleRangeTester \<Rightarrow> 'a RySimpleRangeTester" where
  "forEach callback t = t\<lparr>m_testCallback := Some callback\<rparr>"

text \<open>\<open>expect\<close>: \<open>find\<close> the key and set the flag of the entry found.\<close>

fun expect_entry :: "string \<Rightarrow> (string \<times> 'a TestItem) list \<Rightarrow> (string \<times> 'a TestItem) list" where
  "expect_entry k [] = []"
| "expect_entry k ((a, v) # ps) =
     (if a = k then (a, v\<lparr>expectedToFail := True\<rparr>) # ps else (a, v) # expect_entry k ps)"

definition expect :: "string \<Rightarrow> 'a RySimpleRangeTester \<Rightarrow> 'a RySimpleRangeTester" where
  "expect nm t = t\<lparr>m_testItems := expect_entry nm (m_testItems t)\<rparr>"

definition expectIf :: "('a TestItem \<Rightarrow> bool) \<Rightarrow> 'a RySimpleRangeTester \<Rightarrow> 'a RySimpleRangeTester" where
  "expectIf pred t =
     t\<lparr>m_testItems :=
         map (\<lambda>(k, v). (k, if pred v then v\<lparr>expectedToFail := True\<rparr> else v)) (m_testItems t)\<rparr>"

definition clear :: "'a RySimpleRangeTester \<Rightarrow> 'a RySimpleRangeTester" where
  "clear t = t\<lparr>m_testItems := [], m_results := []\<rparr>"

text \<open>\<open>getTestItem\<close>: \<open>nullptr\<close> is \<open>None\<close>.\<close>

definition getTestItem :: "string \<Rightarrow> 'a RySimpleRangeTester \<Rightarrow> 'a TestItem option" where
  "getTestItem nm t = find_entry (m_testItems t) nm"

section \<open>Running the tests\<close>

definition getPassedCount :: "'a RySimpleRangeTester \<Rightarrow> nat" where
  "getPassedCount t = length (filter success (m_results t))"

text \<open>
  A \<open>size_t\<close> subtraction; the passed results are among the results, so it never
  wraps and the truncating subtraction of \<open>nat\<close> is the same.
\<close>

definition getFailedCount :: "'a RySimpleRangeTester \<Rightarrow> nat" where
  "getFailedCount t = length (m_results t) - getPassedCount t"

text \<open>
  \<open>getPassRate\<close> computes in \<open>double\<close>:
  \<open>static_cast<double>(getPassedCount()) / m_results.size() * 100.0\<close>. The passed
  count is converted, the size is converted for the division, the quotient is
  rounded, and so is its product with \<open>100.0\<close>. \<open>rnd\<close> is the rounding of a real
  number to a \<open>double\<close>; it is a parameter, and the theorem about the pass rate
  says what it takes of it.
\<close>

definition getPassRate :: "(real \<Rightarrow> real) \<Rightarrow> 'a RySimpleRangeTester \<Rightarrow> real" where
  "getPassRate rnd t =
     (if m_results t = [] then 0
      else rnd (rnd (rnd (real (getPassedCount t)) / rnd (real (length (m_results t)))) * 100))"

text \<open>
  The clock: \<open>clk k\<close> is what the \<open>k\<close>-th call of \<open>std::chrono::steady_clock::now()\<close>
  during a run returns, in nanoseconds (the clock's period in the usual standard
  libraries). \<open>duration_cast<milliseconds>\<close> truncates towards zero.
\<close>

type_synonym clock = "nat \<Rightarrow> int"

definition duration_cast_ms :: "int \<Rightarrow> int" where
  "duration_cast_ms d = (if d < 0 then - ((- d) div 1000000) else d div 1000000)"

text \<open>
  The \<open>try\<close> block of \<open>runTests\<close> with its handler. An exception that the handler does
  not match leaves the block.
\<close>

definition try_callback :: "'a TestCallback \<Rightarrow> 'a TestItem \<Rightarrow> TestResult \<Rightarrow> error + TestResult" where
  "try_callback cb testItem result =
     (case cb (item testItem) of
        Returns b \<Rightarrow>
          (let result = result\<lparr>success := b\<rparr>;
               result = (if expectedToFail testItem
                         then result\<lparr>success := \<not> success result\<rparr> else result);
               result = (if \<not> success result
                         then result\<lparr>error := (if expectedToFail testItem
                                                then ''Test unexpectedly passed''
                                                else ''Test failed'')\<rparr>
                         else result)
           in Inr result)
      | ThrowsStd msg \<Rightarrow> Inr (result\<lparr>success := False, error := msg\<rparr>)
      | ThrowsOther \<Rightarrow> Inl Uncaught)"

text \<open>
  The result as it is initialised before the \<open>try\<close> block:
  \<open>TestResult result{name, false, "", {}, testItem.expectedToFail, testItem.description}\<close>.
\<close>

definition initial_result :: "string \<Rightarrow> 'a TestItem \<Rightarrow> TestResult" where
  "initial_result nm testItem =
     \<lparr>TestResult.name = nm, success = False, error = [], duration = 0,
      wasExpectedToFail = expectedToFail testItem,
      TestResult.description = TestItem.description testItem\<rparr>"

text \<open>
  The loop of \<open>runTests\<close> over the store. \<open>k\<close> counts the calls of \<open>now()\<close> made so
  far, \<open>results\<close> is \<open>m_results\<close>, to which each result is pushed. What the loop
  prints is not modelled: console output does not come back into the state.
\<close>

fun run_loop ::
  "'a TestCallback \<Rightarrow> clock \<Rightarrow> (string \<times> 'a TestItem) list \<Rightarrow> nat \<Rightarrow> TestResult list \<Rightarrow> nat
     \<Rightarrow> error option \<times> TestResult list \<times> nat" where
  "run_loop cb clk [] k results passedTests = (None, results, passedTests)"
| "run_loop cb clk ((nm, testItem) # rest) k results passedTests =
     (let testStart = clk k;
          result = initial_result nm testItem
      in case try_callback cb testItem result of
           Inl e \<Rightarrow> (Some e, results, passedTests)
         | Inr result \<Rightarrow>
             (let result = result\<lparr>duration := duration_cast_ms (clk (k + 1) - testStart)\<rparr>;
                  passedTests = (if success result then passedTests + 1 else passedTests)
              in run_loop cb clk rest (k + 2) (results @ [result]) passedTests))"

text \<open>
  \<open>runTests\<close>: the exception that leaves it, if any, and the state it leaves
  behind. Call 0 of the clock is \<open>totalStartTime\<close>. \<open>m_results\<close> is cleared after the
  check of the callback, before the loop.
\<close>

definition runTests :: "clock \<Rightarrow> 'a RySimpleRangeTester \<Rightarrow> error option \<times> 'a RySimpleRangeTester" where
  "runTests clk t =
     (case m_testCallback t of
        None \<Rightarrow> (Some (RuntimeError ''Test callback not set''), t)
      | Some cb \<Rightarrow>
          (case run_loop cb clk (m_testItems t) 1 [] 0 of
             (e, results, passedTests) \<Rightarrow> (e, t\<lparr>m_results := results\<rparr>)))"

definition run :: "clock \<Rightarrow> 'a RySimpleRangeTester \<Rightarrow> (error + bool) \<times> 'a RySimpleRangeTester" where
  "run clk t =
     (case runTests clk t of
        (Some e, t') \<Rightarrow> (Inl e, t')
      | (None, t') \<Rightarrow> (Inr (getPassedCount t' = length (m_testItems t')), t'))"

section \<open>The performance analysis of the report\<close>

text \<open>
  The comparison given to \<open>std::minmax_element\<close>:
  \<open>[](const TestResult& a, const TestResult& b) { return a.duration < b.duration; }\<close>.
\<close>

definition duration_less :: "TestResult \<Rightarrow> TestResult \<Rightarrow> bool" where
  "duration_less a b = (duration a < duration b)"

text \<open>
  \<open>std::minmax_element\<close> belongs to the standard library. The standard fixes its
  result: the pair of \<open>first\<close> twice for an empty range; otherwise the first
  iterator to which no element of the range is smaller, and the last iterator to
  which no element is larger. The model is a scan from left to right that holds
  the positions of the smallest and of the largest element so far; the smallest
  moves on a strictly smaller element, the largest on one that is not smaller.
  Iterators are positions in the list.
\<close>

function minmax_scan :: "('a \<Rightarrow> 'a \<Rightarrow> bool) \<Rightarrow> 'a list \<Rightarrow> nat \<Rightarrow> nat \<Rightarrow> nat \<Rightarrow> nat \<times> nat" where
  "minmax_scan cmp xs i m M =
     (if i < length xs
      then minmax_scan cmp xs (i + 1)
             (if cmp (xs ! i) (xs ! m) then i else m)
             (if cmp (xs ! i) (xs ! M) then M else i)
      else (m, M))"
  by pat_completeness auto
termination
  by (relation "measure (\<lambda>(cmp, xs, i, m, M). length xs - i)") auto

declare minmax_scan.simps [simp del]

definition minmax_element :: "('a \<Rightarrow> 'a \<Rightarrow> bool) \<Rightarrow> 'a list \<Rightarrow> nat \<times> nat" where
  "minmax_element cmp xs = (if xs = [] then (0, 0) else minmax_scan cmp xs 1 0 0)"

text \<open>
  The performance analysis of \<open>printTestReport\<close>, as the values it prints: the
  results at \<open>maxIt\<close> and \<open>minIt\<close>, \<open>avgTime\<close> and the results listed as significantly
  above average. The rest of the report is not modelled.
\<close>

record performance =
  slowest :: TestResult
  fastest :: TestResult
  avgTime :: nat
  slowTests :: "TestResult list"

text \<open>
  \<open>None\<close> when \<open>m_results\<close> is empty and the block is not printed.
  \<open>totalTestTime.count() / m_results.size()\<close> divides a signed 64-bit count by a
  \<open>size_t\<close>, so the count is converted to unsigned (taken modulo \<open>2^64\<close>) and the
  quotient is truncated. \<open>static_cast<long long>(avgTime * 1.5)\<close> is computed in
  \<open>double\<close> and truncated; the model computes it exactly, as \<open>3 * avgTime div 2\<close>,
  which is what the \<open>double\<close> gives for every \<open>avgTime\<close> below \<open>2^51\<close>.
\<close>

definition performance_analysis :: "TestResult list \<Rightarrow> int \<Rightarrow> performance option" where
  "performance_analysis results totalTestTime =
     (if results = [] then None
      else
        (let (minIt, maxIt) = minmax_element duration_less results;
             avgTime = nat (totalTestTime mod 2 ^ 64) div length results;
             slowTests = filter (\<lambda>result. duration result > int (3 * avgTime div 2)) results
         in Some \<lparr>slowest = results ! maxIt, fastest = results ! minIt,
                   avgTime = avgTime, slowTests = slowTests\<rparr>))"

text \<open>
  \<open>totalTestTime\<close> as \<open>runTests\<close> computes it: \<open>std::accumulate\<close> over \<open>m_results\<close> from
  0 with \<open>sum + result.duration\<close>.
\<close>

definition total_test_time :: "TestResult list \<Rightarrow> int" where
  "total_test_time results = foldl (\<lambda>sum result. sum + duration result) 0 results"

text \<open>
  What the report of a run shows in that block: \<open>runTests\<close> ends by calling
  \<open>printTestReport\<close> with the \<open>totalTestTime\<close> of the results it has just collected.
\<close>

definition printed_performance :: "clock \<Rightarrow> 'a RySimpleRangeTester \<Rightarrow> performance option" where
  "printed_performance clk t =
     (case runTests clk t of
        (Some e, t') \<Rightarrow> None
      | (None, t') \<Rightarrow> performance_analysis (m_results t') (total_test_time (m_results t')))"

text \<open>
  Among the first \<open>i\<close> elements of a log: \<open>m\<close> is the first position of the least
  duration, \<open>M\<close> is the last position of the greatest duration.
\<close>

definition first_min :: "TestResult list \<Rightarrow> nat \<Rightarrow> nat \<Rightarrow> bool" where
  "first_min xs i m \<longleftrightarrow>
     m < i \<and> (\<forall>j<i. duration (xs ! m) \<le> duration (xs ! j)) \<and>
     (\<forall>j<m. duration (xs ! m) < duration (xs ! j))"

definition last_max :: "TestResult list \<Rightarrow> nat \<Rightarrow> nat \<Rightarrow> bool" where
  "last_max xs i M \<longleftrightarrow>
     M < i \<and> (\<forall>j<i. duration (xs ! j) \<le> duration (xs ! M)) \<and>
     (\<forall>j<i. M < j \<longrightarrow> duration (xs ! j) < duration (xs ! M))"

section \<open>Sequences of calls\<close>

text \<open>
  A call of \<open>add(value, name, description)\<close> or of \<open>add(TestItem)\<close>; the name it
  is given, and the item it asks to store under that name when the name is
  explicit.
\<close>

datatype 'a add_call = AddValue 'a string string | AddItem "'a TestItem"

fun call_name :: "'a add_call \<Rightarrow> string" where
  "call_name (AddValue v nm desc) = nm"
| "call_name (AddItem testItem) = TestItem.name testItem"

fun call_item :: "'a add_call \<Rightarrow> 'a TestItem" where
  "call_item (AddValue v nm desc) =
     \<lparr>item = v, TestItem.name = nm, TestItem.description = desc, expectedToFail = False\<rparr>"
| "call_item (AddItem testItem) = testItem"

text \<open>A sequence of such calls, one after the other on the same tester.\<close>

fun add_calls :: "'a add_call list \<Rightarrow> 'a RySimpleRangeTester \<Rightarrow> 'a RySimpleRangeTester" where
  "add_calls [] t = t"
| "add_calls (AddValue v nm desc # calls) t = add_calls calls (add v nm desc t)"
| "add_calls (AddItem testItem # calls) t = add_calls calls (add_TestItem testItem t)"

text \<open>
  The public operations as values, so that a sequence of calls is a list. \<open>Run\<close>
  stands for a call of \<open>run()\<close> whose exception, if it throws, the caller catches:
  what is left is the state.
\<close>

datatype 'a operation =
    Add 'a string string
  | AddTestItem "'a TestItem"
  | AddContainer "'a list" string
  | AddInitializerList "'a list" string
  | AddContainerTestItem "'a TestItem list" string
  | Remove string
  | RemoveIf "'a TestItem \<Rightarrow> bool"
  | ForEach "'a TestCallback"
  | Expect string
  | ExpectIf "'a TestItem \<Rightarrow> bool"
  | Clear
  | Run clock

fun apply_operation :: "'a operation \<Rightarrow> 'a RySimpleRangeTester \<Rightarrow> 'a RySimpleRangeTester" where
  "apply_operation (Add v nm desc) t = add v nm desc t"
| "apply_operation (AddTestItem testItem) t = add_TestItem testItem t"
| "apply_operation (AddContainer items namePrefix) t = add_container items namePrefix t"
| "apply_operation (AddInitializerList items namePrefix) t = add_initializer_list items namePrefix t"
| "apply_operation (AddContainerTestItem items namePrefix) t = add_container_TestItem items namePrefix t"
| "apply_operation (Remove nm) t = remove nm t"
| "apply_operation (RemoveIf pred) t = removeIf pred t"
| "apply_operation (ForEach callback) t = forEach callback t"
| "apply_operation (Expect nm) t = expect nm t"
| "apply_operation (ExpectIf pred) t = expectIf pred t"
| "apply_operation Clear t = clear t"
| "apply_operation (Run clk) t = snd (run clk t)"

text \<open>Every entry is stored under the name its item carries.\<close>

definition keys_are_names :: "(string \<times> 'a TestItem) list \<Rightarrow> bool" where
  "keys_are_names store = (\<forall>(k, v)\<in>set store. TestItem.name v = k)"

text \<open>The two invariants of the store together.\<close>

definition store_ok :: "'a RySimpleRangeTester \<Rightarrow> bool" where
  "store_ok t \<longleftrightarrow> keys_are_names (m_testItems t) \<and> unique_keys (m_testItems t)"

section \<open>Inputs of the worked examples\<close>

text \<open>
  The testers, predicates, clock and logs at which the theorems below are
  instantiated. \<open>scenario_store\<close> is the store \<open>{a: 1, b: -1 expected to fail}\<close>;
  \<open>clock_ms\<close> advances by one millisecond at every reading, so every test takes
  1 ms.
\<close>

definition store_Test_2 :: "nat RySimpleRangeTester" where
  "store_Test_2 = add 7 ''Test_2'' [] RySimpleRangeTester"

definition scenario_store :: "int RySimpleRangeTester" where
  "scenario_store = expect ''b'' (add (- 1) ''b'' [] (add 1 ''a'' [] RySimpleRangeTester))"

definition positive :: "int TestCallback" where
  "positive x = Returns (0 < x)"

definition nonzero :: "int TestCallback" where
  "nonzero x = Returns (x \<noteq> 0)"

definition clock_ms :: clock where
  "clock_ms k = 1000000 * int k"

definition negative :: "int TestCallback" where
  "negative x = Returns (x < 0)"

definition plain_store :: "int RySimpleRangeTester" where
  "plain_store = add (- 1) ''b'' [] (add 1 ''a'' [] RySimpleRangeTester)"

definition reciprocal_positive :: "int TestCallback" where
  "reciprocal_positive x = (if x = 0 then ThrowsStd ''division by zero'' else Returns (0 < x))"

definition fault_store :: "int RySimpleRangeTester" where
  "fault_store =
     forEach reciprocal_positive
       (expect ''z'' (add 2 ''c'' [] (add 0 ''z'' [] (add 1 ''a'' [] RySimpleRangeTester))))"

definition tied_log :: "TestResult list" where
  "tied_log =
     [\<lparr>TestResult.name = ''a'', success = True, error = [], duration = 1,
       wasExpectedToFail = False, TestResult.description = []\<rparr>,
      \<lparr>TestResult.name = ''b'', success = True, error = [], duration = 1,
       wasExpectedToFail = True, TestResult.description = []\<rparr>]"

definition uneven_log :: "TestResult list" where
  "uneven_log =
     [\<lparr>TestResult.name = ''a'', success = True, error = [], duration = 1,
       wasExpectedToFail = False, TestResult.description = []\<rparr>,
      \<lparr>TestResult.name = ''b'', success = True, error = [], duration = 2,
       wasExpectedToFail = True, TestResult.description = []\<rparr>]"

definition run_then_remove :: "int RySimpleRangeTester" where
  "run_then_remove =
     remove ''a'' (snd (run clock_ms (forEach positive (add 1 ''a'' [] RySimpleRangeTester))))"

definition duplicate_calls :: "int add_call list" where
  "duplicate_calls =
     [AddValue 1 ''a'' ''first'',
      AddItem \<lparr>item = 2, TestItem.name = ''b'', TestItem.description = ''item'',
               expectedToFail = True\<rparr>,
      AddItem \<lparr>item = 3, TestItem.name = ''a'', TestItem.description = ''second'',
               expectedToFail = True\<rparr>,
      AddValue 4 ''b'' ''late'']"

definition mixed_operations :: "int operation list" where
  "mixed_operations =
     [Add 5 [] [],
      AddTestItem \<lparr>item = 6, TestItem.name = [], TestItem.description = ''generated'',
                   expectedToFail = True\<rparr>,
      AddContainer [7, 8] ''num'',
      AddContainerTestItem
        [\<lparr>item = 10, TestItem.name = ''test10'', TestItem.description = [],
          expectedToFail = False\<rparr>] ''Test'',
      AddInitializerList [100] ''Test'',
      Expect ''num_3'',
      ExpectIf (\<lambda>v. item v < 6),
      Remove ''num_4'',
      RemoveIf (\<lambda>v. item v = 10)]"

text \<open>
  One result of three has passed: the run of \<open>{a: 1, b: -1, c: -2}\<close> with the
  predicate \<open>x > 0\<close>.
\<close>

definition one_of_three :: "int RySimpleRangeTester" where
  "one_of_three = snd (run clock_ms (forEach positive (add (- 2) ''c'' [] plain_store)))"

text \<open>
  A rounding that does what the rounding to the nearest \<open>double\<close> does at the two
  values the pass rate of one in three meets, \<open>1/3\<close> and \<open>100\<close> times the \<open>double\<close>
  nearest to it, and leaves every other number alone.
\<close>

definition round_at_third :: "real \<Rightarrow> real" where
  "round_at_third x =
     (if x = 1 / 3 then 6004799503160661 / 18014398509481984
      else if x = 6004799503160661 / 18014398509481984 * 100
      then 2345624805922133 / 70368744177664
      else x)"

text \<open>
  A predicate that throws an object that is not a \<open>std::exception\<close> for 0, as
  \<open>[](int x) { if (x == 0) throw 42; return x > 0; }\<close> does, and the store
  \<open>{a: 1, z: 0, c: 2}\<close> with it.
\<close>

definition throws_at_zero :: "int TestCallback" where
  "throws_at_zero x = (if x = 0 then ThrowsOther else Returns (0 < x))"

definition abort_store :: "int RySimpleRangeTester" where
  "abort_store =
     forEach throws_at_zero
       (add 2 ''c'' [] (add 0 ''z'' [] (add 1 ''a'' [] RySimpleRangeTester)))"

section \<open>The name generator is fresh\<close>

lemma generate_loop_spec:
  "\<exists>n. c \<le> n \<and> generate_loop b store c = format_name b n \<and>
       \<not> contains store (format_name b n) \<and>
       (\<forall>m. c \<le> m \<and> m < n \<longrightarrow> contains store (format_name b m))"
proof (induction b store c rule: generate_loop.induct)
  case (1 baseName store counter)
  show ?case
  proof (cases "contains store (format_name baseName counter)")
    case True
    from "1.IH" [OF refl True] obtain n where n: "counter + 1 \<le> n"
      "generate_loop baseName store (counter + 1) = format_name baseName n"
      "\<not> contains store (format_name baseName n)"
      "\<forall>m. counter + 1 \<le> m \<and> m < n \<longrightarrow> contains store (format_name baseName m)"
      by blast
    have "\<forall>m. counter \<le> m \<and> m < n \<longrightarrow> contains store (format_name baseName m)"
    proof (intro allI impI)
      fix m assume "counter \<le> m \<and> m < n"
      then have "m = counter \<or> (counter + 1 \<le> m \<and> m < n)" by auto
      with True n(4) show "contains store (format_name baseName m)" by blast
    qed
    moreover have "generate_loop baseName store counter = format_name baseName n"
      using True n(2) by (subst generate_loop.simps) simp
    ultimately show ?thesis using n(1,3) by (intro exI [of _ n]) simp
  next
    case False
    then have "generate_loop baseName store counter = format_name baseName counter"
      by (subst generate_loop.simps) simp
    moreover have "\<forall>m. counter \<le> m \<and> m < counter \<longrightarrow> contains store (format_name baseName m)"
      by auto
    ultimately show ?thesis using False by (intro exI [of _ counter]) simp
  qed
qed

lemma run_of_keys_bound:
  assumes "\<forall>m. c \<le> m \<and> m < n \<longrightarrow> contains store (format_name b m)" and "c \<le> n"
  shows "n - c \<le> length store"
proof -
  have "format_name b ` {c..<n} \<subseteq> set (map fst store)"
    using assms(1) by (auto simp: contains_def)
  then have "card (format_name b ` {c..<n}) \<le> card (set (map fst store))"
    by (intro card_mono) simp_all
  moreover have "inj_on (format_name b) {c..<n}"
    by (auto intro: inj_onI format_name_inj)
  then have "card (format_name b ` {c..<n}) = n - c"
    by (simp add: card_image)
  moreover have "card (set (map fst store)) \<le> length store"
    using card_length [of "map fst store"] by simp
  ultimately show ?thesis by simp
qed

text \<open>
  C5. For every prefix and every store, \<open>generateUniqueName\<close> returns
  \<open>"{prefix}_{n}"\<close> for some \<open>n\<close> from \<open>size + 1\<close> on; every candidate from \<open>size + 1\<close>
  up to \<open>n\<close> (excluded) is a key of the store, so \<open>n\<close> is the first counter whose
  candidate is absent; \<open>n\<close> is at most \<open>2 * size + 1\<close>; and the name
  returned is not a key of the store.
\<close>

theorem generateUniqueName_fresh:
  "\<exists>n. generateUniqueName baseName t = format_name baseName n \<and>
       length (m_testItems t) + 1 \<le> n \<and>
       n \<le> 2 * length (m_testItems t) + 1 \<and>
       (\<forall>m. length (m_testItems t) + 1 \<le> m \<and> m < n \<longrightarrow>
            contains (m_testItems t) (format_name baseName m)) \<and>
       \<not> contains (m_testItems t) (generateUniqueName baseName t)"
proof -
  let ?c = "length (m_testItems t) + 1"
  from generate_loop_spec [of ?c baseName "m_testItems t"]
  obtain n where n: "?c \<le> n"
    "generate_loop baseName (m_testItems t) ?c = format_name baseName n"
    "\<not> contains (m_testItems t) (format_name baseName n)"
    "\<forall>m. ?c \<le> m \<and> m < n \<longrightarrow> contains (m_testItems t) (format_name baseName m)"
    by blast
  from run_of_keys_bound [OF n(4) n(1)] have "n \<le> 2 * length (m_testItems t) + 1"
    by simp
  with n show ?thesis
    unfolding generateUniqueName_def by (intro exI [of _ n]) simp
qed

text \<open>
  At a store whose one key is \<open>Test_2\<close> the first candidate, \<open>Test_2\<close>, is taken and
  the name returned is \<open>Test_3\<close>.
\<close>

theorem generateUniqueName_fresh_witness:
  "generateUniqueName ''Test'' store_Test_2 = ''Test_3'' \<and>
   contains (m_testItems store_Test_2) (format_name ''Test'' 2) \<and>
   \<not> contains (m_testItems store_Test_2) ''Test_3''"
proof -
  have len: "length (m_testItems store_Test_2) = 1"
    by code_simp
  have c2: "contains (m_testItems store_Test_2) (format_name ''Test'' 2)"
    by code_simp
  have f3: "format_name ''Test'' 3 = ''Test_3''"
    by code_simp
  from generateUniqueName_fresh [of "''Test''" store_Test_2] len
  obtain n where n: "generateUniqueName ''Test'' store_Test_2 = format_name ''Test'' n"
    "2 \<le> n" "n \<le> 3"
    "\<not> contains (m_testItems store_Test_2) (generateUniqueName ''Test'' store_Test_2)"
    by auto
  from n(1,4) c2 have "n \<noteq> 2"
    by auto
  with n(2,3) have "n = 3"
    by simp
  with n(1,4) c2 f3 show ?thesis
    by simp
qed

section \<open>What a run leaves behind\<close>

lemma try_callback_Returns:
  "cb (item ti) = Returns b \<Longrightarrow>
   try_callback cb ti r =
     Inr (if b \<noteq> expectedToFail ti then r\<lparr>success := True\<rparr>
          else r\<lparr>success := False,
                 error := (if expectedToFail ti then ''Test unexpectedly passed'' else ''Test failed'')\<rparr>)"
  by (auto simp: try_callback_def Let_def)

lemma try_callback_ThrowsStd:
  "cb (item ti) = ThrowsStd msg \<Longrightarrow> try_callback cb ti r = Inr (r\<lparr>success := False, error := msg\<rparr>)"
  by (simp add: try_callback_def)

lemma try_callback_Inl:
  "try_callback cb ti r = Inl e \<longleftrightarrow> e = Uncaught \<and> cb (item ti) = ThrowsOther"
  by (auto simp: try_callback_def Let_def split: outcome.splits)

lemma run_loop_None:
  "run_loop cb clk store k results passed = (None, out, p) \<Longrightarrow>
   \<exists>rs. out = results @ rs \<and> length rs = length store \<and>
        p = passed + length (filter success rs) \<and>
        (\<forall>i<length store. \<exists>r0.
            try_callback cb (snd (store ! i)) (initial_result (fst (store ! i)) (snd (store ! i))) = Inr r0 \<and>
            rs ! i = r0\<lparr>duration := duration_cast_ms (clk (k + 2 * i + 1) - clk (k + 2 * i))\<rparr>)"
proof (induction store arbitrary: k results passed)
  case Nil
  then show ?case by simp
next
  case (Cons x store)
  obtain nm ti where x: "x = (nm, ti)" by (cases x)
  from Cons.prems x obtain r0 where r0: "try_callback cb ti (initial_result nm ti) = Inr r0"
    by (cases "try_callback cb ti (initial_result nm ti)") (simp_all add: Let_def)
  define r where "r = r0\<lparr>duration := duration_cast_ms (clk (k + 1) - clk k)\<rparr>"
  define passed' where "passed' = (if success r then passed + 1 else passed)"
  from Cons.prems x r0 have "run_loop cb clk store (k + 2) (results @ [r]) passed' = (None, out, p)"
    by (simp add: Let_def r_def passed'_def)
  from Cons.IH [OF this] obtain rs where rs: "out = (results @ [r]) @ rs" "length rs = length store"
    "p = passed' + length (filter success rs)"
    "\<forall>i<length store. \<exists>r0.
        try_callback cb (snd (store ! i)) (initial_result (fst (store ! i)) (snd (store ! i))) = Inr r0 \<and>
        rs ! i = r0\<lparr>duration := duration_cast_ms (clk (k + 2 + 2 * i + 1) - clk (k + 2 + 2 * i))\<rparr>"
    by blast
  have "\<exists>r0. try_callback cb (snd ((x # store) ! i)) (initial_result (fst ((x # store) ! i)) (snd ((x # store) ! i))) = Inr r0 \<and>
            (r # rs) ! i = r0\<lparr>duration := duration_cast_ms (clk (k + 2 * i + 1) - clk (k + 2 * i))\<rparr>"
    if "i < length (x # store)" for i
  proof (cases i)
    case 0
    with x r0 show ?thesis by (simp add: r_def)
  next
    case (Suc j)
    with that have "j < length store" by simp
    with rs(4) Suc show ?thesis by (simp add: add.commute add.left_commute)
  qed
  with rs(1,2,3) show ?case
    by (intro exI [of _ "r # rs"]) (simp add: passed'_def)
qed

lemma run_loop_Some:
  "run_loop cb clk store k results passed = (Some e, out, p) \<Longrightarrow>
   e = Uncaught \<and> (\<exists>x\<in>set store. cb (item (snd x)) = ThrowsOther)"
proof (induction store arbitrary: k results passed)
  case Nil
  then show ?case by simp
next
  case (Cons x store)
  obtain nm ti where x: "x = (nm, ti)" by (cases x)
  show ?case
  proof (cases "try_callback cb ti (initial_result nm ti)")
    case (Inl e')
    with Cons.prems x show ?thesis
      by (auto simp: try_callback_Inl)
  next
    case (Inr r0)
    with Cons.prems x have "\<exists>k' results' passed'. run_loop cb clk store k' results' passed' = (Some e, out, p)"
      by (auto simp: Let_def)
    with Cons.IH show ?thesis by auto
  qed
qed

lemma run_loop_total:
  "\<forall>x\<in>set store. cb (item (snd x)) \<noteq> ThrowsOther \<Longrightarrow>
   \<exists>out p. run_loop cb clk store k results passed = (None, out, p)"
proof -
  assume a: "\<forall>x\<in>set store. cb (item (snd x)) \<noteq> ThrowsOther"
  obtain e out p where r: "run_loop cb clk store k results passed = (e, out, p)"
    by (cases "run_loop cb clk store k results passed")
  with a run_loop_Some [of cb clk store k results passed] have "e = None"
    by (cases e) auto
  with r show ?thesis by simp
qed

section \<open>The value of a run\<close>

lemma length_filter_all: "length (filter P xs) = length xs \<longleftrightarrow> (\<forall>x\<in>set xs. P x)"
proof (induction xs)
  case Nil
  show ?case by simp
next
  case (Cons x xs)
  have "length (filter P xs) \<noteq> Suc (length xs)"
    using length_filter_le [of P xs] by (metis Suc_n_not_le_n)
  with Cons show ?case by auto
qed

lemma run_Inr:
  assumes "run clk t = (Inr b, t')"
  shows "\<exists>cb rs. m_testCallback t = Some cb \<and> t' = t\<lparr>m_results := rs\<rparr> \<and>
           length rs = length (m_testItems t) \<and>
           b = (length (filter success rs) = length (m_testItems t)) \<and>
           (\<forall>i<length (m_testItems t). \<exists>r0.
              try_callback cb (snd (m_testItems t ! i))
                (initial_result (fst (m_testItems t ! i)) (snd (m_testItems t ! i))) = Inr r0 \<and>
              rs ! i = r0\<lparr>duration := duration_cast_ms (clk (1 + 2 * i + 1) - clk (1 + 2 * i))\<rparr>)"
proof -
  from assms obtain cb where cb: "m_testCallback t = Some cb"
    by (cases "m_testCallback t") (auto simp: run_def runTests_def)
  obtain e out p where l: "run_loop cb clk (m_testItems t) 1 [] 0 = (e, out, p)"
    by (cases "run_loop cb clk (m_testItems t) 1 [] 0")
  with assms cb have e: "e = None" and t': "t' = t\<lparr>m_results := out\<rparr>"
    and b: "b = (getPassedCount t' = length (m_testItems t'))"
    by (auto simp: run_def runTests_def split: option.splits)
  from run_loop_None [OF l [unfolded e]] obtain rs where rs: "out = [] @ rs"
    "length rs = length (m_testItems t)"
    "\<forall>i<length (m_testItems t). \<exists>r0.
              try_callback cb (snd (m_testItems t ! i))
                (initial_result (fst (m_testItems t ! i)) (snd (m_testItems t ! i))) = Inr r0 \<and>
              rs ! i = r0\<lparr>duration := duration_cast_ms (clk (1 + 2 * i + 1) - clk (1 + 2 * i))\<rparr>"
    by blast
  from b t' rs(1) have "b = (length (filter success rs) = length (m_testItems t))"
    by (simp add: getPassedCount_def)
  with cb t' rs show ?thesis by auto
qed

lemma run_returns:
  assumes "m_testCallback t = Some cb"
    and "\<forall>x\<in>set (m_testItems t). cb (item (snd x)) \<noteq> ThrowsOther"
  shows "\<exists>b t'. run clk t = (Inr b, t')"
proof -
  from run_loop_total [OF assms(2), of clk 1 "[]" 0]
  obtain out p where "run_loop cb clk (m_testItems t) 1 [] 0 = (None, out, p)"
    by blast
  with assms(1) show ?thesis
    by (simp add: run_def runTests_def)
qed

lemma run_Inr_no_other:
  assumes "run clk t = (Inr b, t')" and "m_testCallback t = Some cb"
  shows "\<forall>x\<in>set (m_testItems t). cb (item (snd x)) \<noteq> ThrowsOther"
proof
  fix x assume "x \<in> set (m_testItems t)"
  then obtain i where i: "i < length (m_testItems t)" "m_testItems t ! i = x"
    by (auto simp: in_set_conv_nth)
  from run_Inr [OF assms(1)] assms(2) i
  obtain r0 where "try_callback cb (snd x) (initial_result (fst x) (snd x)) = Inr r0"
    by force
  then show "cb (item (snd x)) \<noteq> ThrowsOther"
    using try_callback_Inl [of cb "snd x" "initial_result (fst x) (snd x)" Uncaught] by auto
qed

lemma run_returns_iff:
  assumes "m_testCallback t = Some cb"
  shows "(\<exists>b t'. run clk t = (Inr b, t')) \<longleftrightarrow>
         (\<forall>x\<in>set (m_testItems t). cb (item (snd x)) \<noteq> ThrowsOther)"
  using run_returns [OF assms] run_Inr_no_other [OF _ assms] by blast

text \<open>
  C1. Whenever \<open>run()\<close> returns, the value it returns is true exactly when
  \<open>getFailedCount()\<close> is 0 afterwards, and exactly when every result of the result
  log is successful. It does return when a callback is set and no invocation of
  the callback throws an object that is not a \<open>std::exception\<close>.
\<close>

theorem run_true_iff_no_failed:
  "(run clk t = (Inr b, t') \<longrightarrow>
      (b \<longleftrightarrow> getFailedCount t' = 0) \<and> (b \<longleftrightarrow> (\<forall>r\<in>set (m_results t'). success r))) \<and>
   (m_testCallback t = Some cb \<and> (\<forall>x\<in>set (m_testItems t). cb (item (snd x)) \<noteq> ThrowsOther) \<longrightarrow>
      (\<exists>b t'. run clk t = (Inr b, t')))"
proof (intro conjI impI)
  assume r: "run clk t = (Inr b, t')"
  from run_Inr [OF r] obtain rs where rs: "t' = t\<lparr>m_results := rs\<rparr>"
    "length rs = length (m_testItems t)"
    "b = (length (filter success rs) = length (m_testItems t))"
    by blast
  have le: "length (filter success rs) \<le> length rs" by simp
  from rs le show "b \<longleftrightarrow> getFailedCount t' = 0"
    by (auto simp: getFailedCount_def getPassedCount_def)
  from rs show "b \<longleftrightarrow> (\<forall>r\<in>set (m_results t'). success r)"
    using length_filter_all [of success rs] by simp
next
  assume "m_testCallback t = Some cb \<and> (\<forall>x\<in>set (m_testItems t). cb (item (snd x)) \<noteq> ThrowsOther)"
  then show "\<exists>b t'. run clk t = (Inr b, t')"
    using run_returns by blast
qed

text \<open>
  The store \<open>{a: 1, b: -1 expected to fail}\<close>: with the predicate \<open>x > 0\<close> the run
  returns true and nothing has failed, with \<open>x != 0\<close> it returns false and one
  result has failed.
\<close>

theorem run_true_iff_no_failed_witness:
  "fst (run clock_ms (forEach positive scenario_store)) = Inr True \<and>
   getFailedCount (snd (run clock_ms (forEach positive scenario_store))) = 0 \<and>
   fst (run clock_ms (forEach nonzero scenario_store)) = Inr False \<and>
   getFailedCount (snd (run clock_ms (forEach nonzero scenario_store))) = 1"
proof -
  let ?t = "forEach positive scenario_store"
  let ?u = "forEach nonzero scenario_store"
  have a: "fst (run clock_ms ?t) = Inr True"
    by code_simp
  then have "run clock_ms ?t = (Inr True, snd (run clock_ms ?t))"
    by (simp add: prod_eq_iff)
  with run_true_iff_no_failed [of clock_ms ?t True "snd (run clock_ms ?t)"]
  have "getFailedCount (snd (run clock_ms ?t)) = 0"
    by simp
  moreover have b: "fst (run clock_ms ?u) = Inr False"
    by code_simp
  moreover have "getFailedCount (snd (run clock_ms ?u)) = 1"
    by code_simp
  ultimately show ?thesis using a by simp
qed

text \<open>
  C6. With no callback set, \<open>run()\<close> throws the \<open>std::runtime_error\<close>
  \<open>"Test callback not set"\<close> to its caller and leaves the tester as it was: no
  result is produced, and the result log is not even cleared.
\<close>

theorem run_without_callback:
  "m_testCallback t = None \<Longrightarrow>
   run clk t = (Inl (RuntimeError ''Test callback not set''), t)"
  by (simp add: run_def runTests_def)

theorem run_without_callback_witness:
  "m_testCallback scenario_store = None \<and>
   run clock_ms scenario_store = (Inl (RuntimeError ''Test callback not set''), scenario_store)"
proof -
  have "m_testCallback scenario_store = None"
    by (simp add: scenario_store_def expect_def add_def Let_def RySimpleRangeTester_def)
  with run_without_callback [of scenario_store clock_ms] show ?thesis
    by simp
qed

text \<open>
  C9. \<open>clear()\<close> empties the store and the result log and keeps the callback; if a
  callback was set, a \<open>run()\<close> after it returns true, the result log stays empty and
  the passed count is 0.
\<close>

theorem clear_then_run:
  "m_testItems (clear t) = [] \<and> m_results (clear t) = [] \<and>
   m_testCallback (clear t) = m_testCallback t \<and>
   (m_testCallback t \<noteq> None \<longrightarrow>
      run clk (clear t) = (Inr True, clear t) \<and>
      m_results (snd (run clk (clear t))) = [] \<and>
      getPassedCount (snd (run clk (clear t))) = 0)"
  by (auto simp: clear_def run_def runTests_def getPassedCount_def)

text \<open>
  After a run of the store \<open>{a: 1, b: -1 expected to fail}\<close>, whose result log is
  not empty, \<open>clear()\<close> and a second run.
\<close>

theorem clear_then_run_witness:
  "m_testCallback (snd (run clock_ms (forEach positive scenario_store))) \<noteq> None \<and>
   m_results (snd (run clock_ms (forEach positive scenario_store))) \<noteq> [] \<and>
   fst (run clock_ms (clear (snd (run clock_ms (forEach positive scenario_store))))) = Inr True \<and>
   getPassedCount (snd (run clock_ms (clear (snd (run clock_ms (forEach positive scenario_store)))))) = 0 \<and>
   m_testItems (clear (snd (run clock_ms (forEach positive scenario_store)))) = [] \<and>
   m_results (clear (snd (run clock_ms (forEach positive scenario_store)))) = []"
proof -
  let ?t = "snd (run clock_ms (forEach positive scenario_store))"
  have cb: "m_testCallback ?t \<noteq> None"
    by (simp add: run_def runTests_def forEach_def split: prod.splits option.splits)
  have rs: "m_results ?t \<noteq> []"
    by code_simp
  from cb clear_then_run [of ?t clock_ms]
  have "m_testItems (clear ?t) = []" "m_results (clear ?t) = []"
    "run clock_ms (clear ?t) = (Inr True, clear ?t)"
    "getPassedCount (snd (run clock_ms (clear ?t))) = 0"
    by blast+
  with cb rs show ?thesis
    by (simp del: snd_conv)
qed

section \<open>Expected failures\<close>

lemma expect_entry_nth:
  "distinct (map fst store) \<Longrightarrow> i < length store \<Longrightarrow> store ! i = (nm, ti) \<Longrightarrow>
   expect_entry nm store = store[i := (nm, ti\<lparr>expectedToFail := True\<rparr>)]"
proof (induction store arbitrary: i)
  case Nil
  then show ?case by simp
next
  case (Cons x store)
  obtain a v where x: "x = (a, v)" by (cases x)
  show ?case
  proof (cases i)
    case 0
    with Cons.prems x show ?thesis by simp
  next
    case (Suc j)
    with Cons.prems have j: "j < length store" "store ! j = (nm, ti)" by simp_all
    then have "nm \<in> fst ` set store"
      by (metis fst_conv image_eqI nth_mem)
    with Cons.prems(1) x have "a \<noteq> nm" by auto
    with Cons.IH [OF _ j] Cons.prems(1) x Suc show ?thesis by simp
  qed
qed

lemma expect_entry_items:
  "map (\<lambda>x. item (snd x)) (expect_entry nm store) = map (\<lambda>x. item (snd x)) store"
  by (induction store) auto

lemma expect_entry_keys: "map fst (expect_entry nm store) = map fst store"
  by (induction store) auto

lemma no_ThrowsOther_expect:
  "(\<forall>x\<in>set (expect_entry nm store). cb (item (snd x)) \<noteq> ThrowsOther) \<longleftrightarrow>
   (\<forall>x\<in>set store. cb (item (snd x)) \<noteq> ThrowsOther)"
proof -
  have "(\<forall>x\<in>set s. cb (item (snd x)) \<noteq> ThrowsOther) \<longleftrightarrow>
      (\<forall>v\<in>set (map (\<lambda>x. item (snd x)) s). cb v \<noteq> ThrowsOther)"
    for s :: "(string \<times> 'a TestItem) list"
    by simp
  then show ?thesis
    by (simp only: expect_entry_items)
qed

lemma expect_run_results:
  assumes "unique_keys (m_testItems t)"
    and "m_testCallback t = Some cb"
    and "\<forall>x\<in>set (m_testItems t). cb (item (snd x)) \<noteq> ThrowsOther"
    and "i < length (m_testItems t)"
    and "m_testItems t ! i = (nm, ti)"
  shows "\<exists>b t'. run clk (expect nm t) = (Inr b, t') \<and>
           length (m_results t') = length (m_testItems t) \<and>
           map TestResult.name (m_results t') = map fst (m_testItems t) \<and>
           wasExpectedToFail (m_results t' ! i) \<and>
           (cb (item ti) = Returns True \<longrightarrow>
              \<not> success (m_results t' ! i) \<and> error (m_results t' ! i) = ''Test unexpectedly passed'') \<and>
           (cb (item ti) = Returns False \<longrightarrow>
              success (m_results t' ! i) \<and> error (m_results t' ! i) = []) \<and>
           (\<forall>j<length (m_testItems t).
              \<not> expectedToFail (snd (m_testItems t' ! j)) \<and>
              cb (item (snd (m_testItems t' ! j))) = Returns False \<longrightarrow>
              \<not> success (m_results t' ! j) \<and> error (m_results t' ! j) = ''Test failed'')"
proof -
  let ?s = "m_testItems (expect nm t)"
  have s: "?s = (m_testItems t)[i := (nm, ti\<lparr>expectedToFail := True\<rparr>)]"
    using assms(1,4,5) by (simp add: expect_def unique_keys_def expect_entry_nth)
  have len: "length ?s = length (m_testItems t)"
    by (simp add: s)
  have "\<forall>x\<in>set ?s. cb (item (snd x)) \<noteq> ThrowsOther"
    using assms(3) by (simp add: expect_def no_ThrowsOther_expect)
  moreover have "m_testCallback (expect nm t) = Some cb"
    using assms(2) by (simp add: expect_def)
  ultimately obtain b t' where r: "run clk (expect nm t) = (Inr b, t')"
    using run_returns by blast
  from run_Inr [OF r] \<open>m_testCallback (expect nm t) = Some cb\<close>
  obtain rs where rs: "t' = (expect nm t)\<lparr>m_results := rs\<rparr>" "length rs = length ?s"
    "\<forall>j<length ?s. \<exists>r0.
        try_callback cb (snd (?s ! j)) (initial_result (fst (?s ! j)) (snd (?s ! j))) = Inr r0 \<and>
        rs ! j = r0\<lparr>duration := duration_cast_ms (clk (1 + 2 * j + 1) - clk (1 + 2 * j))\<rparr>"
    by auto
  have names: "TestResult.name (rs ! j) = fst (?s ! j)" if "j < length ?s" for j
  proof -
    from rs(3) that obtain r0 where
      "try_callback cb (snd (?s ! j)) (initial_result (fst (?s ! j)) (snd (?s ! j))) = Inr r0"
      "rs ! j = r0\<lparr>duration := duration_cast_ms (clk (1 + 2 * j + 1) - clk (1 + 2 * j))\<rparr>"
      by blast
    then show ?thesis
      by (cases "cb (item (snd (?s ! j)))")
        (auto simp: try_callback_def initial_result_def Let_def split: if_splits)
  qed
  have "map TestResult.name rs = map fst ?s"
    using rs(2) names by (intro nth_equalityI) simp_all
  then have m: "map TestResult.name rs = map fst (m_testItems t)"
    by (simp add: expect_def expect_entry_keys)
  from assms(4) len rs(3) obtain r0 where r0:
    "try_callback cb (snd (?s ! i)) (initial_result (fst (?s ! i)) (snd (?s ! i))) = Inr r0"
    "rs ! i = r0\<lparr>duration := duration_cast_ms (clk (1 + 2 * i + 1) - clk (1 + 2 * i))\<rparr>"
    by force
  have si: "?s ! i = (nm, ti\<lparr>expectedToFail := True\<rparr>)"
    using assms(4) by (simp add: s)
  from r0 si have i1: "wasExpectedToFail (rs ! i)"
    by (cases "cb (item ti)") (auto simp: try_callback_def initial_result_def Let_def split: if_splits)
  from r0 si have i2: "cb (item ti) = Returns True \<longrightarrow>
      \<not> success (rs ! i) \<and> error (rs ! i) = ''Test unexpectedly passed''"
    by (auto simp: try_callback_def initial_result_def Let_def)
  from r0 si have i3: "cb (item ti) = Returns False \<longrightarrow> success (rs ! i) \<and> error (rs ! i) = []"
    by (auto simp: try_callback_def initial_result_def Let_def)
  have i4: "\<not> success (rs ! j) \<and> error (rs ! j) = ''Test failed''"
    if "j < length (m_testItems t)" "\<not> expectedToFail (snd (?s ! j))"
      "cb (item (snd (?s ! j))) = Returns False" for j
  proof -
    from that(1) len rs(3) obtain q where q:
      "try_callback cb (snd (?s ! j)) (initial_result (fst (?s ! j)) (snd (?s ! j))) = Inr q"
      "rs ! j = q\<lparr>duration := duration_cast_ms (clk (1 + 2 * j + 1) - clk (1 + 2 * j))\<rparr>"
      by force
    with that(2,3) show ?thesis
      by (auto simp: try_callback_def initial_result_def Let_def)
  qed
  from rs(1) have t's: "m_testItems t' = ?s" and t'r: "m_results t' = rs"
    by simp_all
  show ?thesis
    using r rs(2) len m i1 i2 i3 i4 unfolding t's [symmetric] t'r [symmetric]
    by (intro exI [of _ b] exI [of _ t']) (simp add: t's)
qed

text \<open>
  C2. Let the item \<open>ti\<close> be stored under \<open>nm\<close> (at position \<open>i\<close> of the iteration)
  and let a callback be set. Whenever the run after \<open>expect(nm)\<close> returns, the
  result of the item is marked as expected to fail; if the callback returns true
  for the item's value, the result is a failure with the error
  \<open>"Test unexpectedly passed"\<close>; if it returns false, the result is a success (with
  no error); and every item of the store that is not marked and for whose value
  the callback returns false has a failing result with the error
  \<open>"Test failed"\<close>. The run returns exactly when no invocation of the callback
  throws an object that is not a \<open>std::exception\<close>.
\<close>

theorem expect_inverts_outcome:
  assumes "unique_keys (m_testItems t)"
    and "m_testCallback t = Some cb"
    and "i < length (m_testItems t)"
    and "m_testItems t ! i = (nm, ti)"
  shows "(\<forall>b t'. run clk (expect nm t) = (Inr b, t') \<longrightarrow>
           length (m_results t') = length (m_testItems t) \<and>
           map TestResult.name (m_results t') = map fst (m_testItems t) \<and>
           wasExpectedToFail (m_results t' ! i) \<and>
           (cb (item ti) = Returns True \<longrightarrow>
              \<not> success (m_results t' ! i) \<and> error (m_results t' ! i) = ''Test unexpectedly passed'') \<and>
           (cb (item ti) = Returns False \<longrightarrow>
              success (m_results t' ! i) \<and> error (m_results t' ! i) = []) \<and>
           (\<forall>j<length (m_testItems t).
              \<not> expectedToFail (snd (m_testItems t' ! j)) \<and>
              cb (item (snd (m_testItems t' ! j))) = Returns False \<longrightarrow>
              \<not> success (m_results t' ! j) \<and> error (m_results t' ! j) = ''Test failed'')) \<and>
         ((\<exists>b t'. run clk (expect nm t) = (Inr b, t')) \<longleftrightarrow>
          (\<forall>x\<in>set (m_testItems t). cb (item (snd x)) \<noteq> ThrowsOther))"
proof -
  have cb: "m_testCallback (expect nm t) = Some cb"
    using assms(2) by (simp add: expect_def)
  have other: "(\<forall>x\<in>set (m_testItems (expect nm t)). cb (item (snd x)) \<noteq> ThrowsOther) \<longleftrightarrow>
      (\<forall>x\<in>set (m_testItems t). cb (item (snd x)) \<noteq> ThrowsOther)"
    by (simp add: expect_def no_ThrowsOther_expect)
  have returns: "(\<exists>b t'. run clk (expect nm t) = (Inr b, t')) \<longleftrightarrow>
      (\<forall>x\<in>set (m_testItems t). cb (item (snd x)) \<noteq> ThrowsOther)"
    using run_returns_iff [OF cb, of clk] other by simp
  have "length (m_results t') = length (m_testItems t) \<and>
    map TestResult.name (m_results t') = map fst (m_testItems t) \<and>
    wasExpectedToFail (m_results t' ! i) \<and>
    (cb (item ti) = Returns True \<longrightarrow>
       \<not> success (m_results t' ! i) \<and> error (m_results t' ! i) = ''Test unexpectedly passed'') \<and>
    (cb (item ti) = Returns False \<longrightarrow>
       success (m_results t' ! i) \<and> error (m_results t' ! i) = []) \<and>
    (\<forall>j<length (m_testItems t).
       \<not> expectedToFail (snd (m_testItems t' ! j)) \<and>
       cb (item (snd (m_testItems t' ! j))) = Returns False \<longrightarrow>
       \<not> success (m_results t' ! j) \<and> error (m_results t' ! j) = ''Test failed'')"
    if r: "run clk (expect nm t) = (Inr b, t')" for b t'
  proof -
    from r returns have "\<forall>x\<in>set (m_testItems t). cb (item (snd x)) \<noteq> ThrowsOther"
      by blast
    from expect_run_results [OF assms(1,2) this assms(3,4), of clk] r show ?thesis
      by auto
  qed
  with returns show ?thesis
    by blast
qed

text \<open>
  The store \<open>{a: 1, b: -1}\<close> after \<open>expect("b")\<close>. With the predicate \<open>x < 0\<close>, \<open>b\<close>
  passes unexpectedly and the unmarked \<open>a\<close> fails; with \<open>x > 0\<close>, \<open>b\<close> passes.
\<close>

theorem expect_inverts_outcome_witness:
  "\<not> success (m_results (snd (run clock_ms (expect ''b'' (forEach negative plain_store)))) ! 1) \<and>
   error (m_results (snd (run clock_ms (expect ''b'' (forEach negative plain_store)))) ! 1) =
     ''Test unexpectedly passed'' \<and>
   \<not> success (m_results (snd (run clock_ms (expect ''b'' (forEach negative plain_store)))) ! 0) \<and>
   error (m_results (snd (run clock_ms (expect ''b'' (forEach negative plain_store)))) ! 0) =
     ''Test failed'' \<and>
   success (m_results (snd (run clock_ms (expect ''b'' (forEach positive plain_store)))) ! 1)"
proof -
  let ?b = "\<lparr>item = - 1 :: int, TestItem.name = ''b'', TestItem.description = [], expectedToFail = False\<rparr>"
  have store: "m_testItems plain_store =
      [(''a'', \<lparr>item = 1, TestItem.name = ''a'', TestItem.description = [], expectedToFail = False\<rparr>),
       (''b'', ?b)]"
    by code_simp
  have u: "unique_keys (m_testItems (forEach cb plain_store))" for cb
    by (simp add: forEach_def store unique_keys_def)
  have c: "m_testCallback (forEach cb plain_store) = Some cb" for cb
    by (simp add: forEach_def)
  have i: "1 < length (m_testItems (forEach cb plain_store))" for cb
    by (simp add: forEach_def store)
  have n: "m_testItems (forEach cb plain_store) ! 1 = (''b'', ?b)" for cb
    by (simp add: forEach_def store)
  have o1: "\<forall>x\<in>set (m_testItems (forEach negative plain_store)). negative (item (snd x)) \<noteq> ThrowsOther"
    by (simp add: negative_def)
  have o2: "\<forall>x\<in>set (m_testItems (forEach positive plain_store)). positive (item (snd x)) \<noteq> ThrowsOther"
    by (simp add: positive_def)
  have s: "m_testItems (expect ''b'' (forEach cb plain_store)) ! 0 =
      (''a'', \<lparr>item = 1, TestItem.name = ''a'', TestItem.description = [], expectedToFail = False\<rparr>)" for cb
    by (simp add: forEach_def expect_def store)
  have nb: "negative (- 1) = Returns True" "negative 1 = Returns False"
    by (simp_all add: negative_def)
  have pb: "positive (- 1) = Returns False"
    by (simp add: positive_def)
  note neg = expect_inverts_outcome [OF u [of negative] c [of negative] i [of negative] n [of negative], where clk = clock_ms]
  from neg o1 obtain b t' where r: "run clock_ms (expect ''b'' (forEach negative plain_store)) = (Inr b, t')"
    by blast
  with neg nb(1) have r1: "\<not> success (m_results t' ! 1) \<and> error (m_results t' ! 1) = ''Test unexpectedly passed''"
    and r0: "\<forall>j<length (m_testItems (forEach negative plain_store)).
              \<not> expectedToFail (snd (m_testItems t' ! j)) \<and>
              negative (item (snd (m_testItems t' ! j))) = Returns False \<longrightarrow>
              \<not> success (m_results t' ! j) \<and> error (m_results t' ! j) = ''Test failed''"
    by simp_all
  from run_Inr [OF r] have "m_testItems t' = m_testItems (expect ''b'' (forEach negative plain_store))"
    by auto
  with r0 s [of negative] have r0': "\<not> success (m_results t' ! 0) \<and> error (m_results t' ! 0) = ''Test failed''"
    by (simp add: nb forEach_def store)
  note pos = expect_inverts_outcome [OF u [of positive] c [of positive] i [of positive] n [of positive], where clk = clock_ms]
  from pos o2 obtain b' t'' where r': "run clock_ms (expect ''b'' (forEach positive plain_store)) = (Inr b', t'')"
    by blast
  with pos pb have r2: "success (m_results t'' ! 1)"
    by simp
  from r r1 r0' r' r2 show ?thesis
    by simp
qed

section \<open>Exceptions thrown by the callback\<close>

lemma run_Inr_result:
  assumes "run clk t = (Inr b, t')" and "m_testCallback t = Some cb"
    and "j < length (m_testItems t)" and "m_testItems t ! j = (nm, ti)"
  shows "TestResult.name (m_results t' ! j) = nm \<and>
         wasExpectedToFail (m_results t' ! j) = expectedToFail ti \<and>
         TestResult.description (m_results t' ! j) = TestItem.description ti \<and>
         duration (m_results t' ! j) = duration_cast_ms (clk (2 * j + 2) - clk (2 * j + 1)) \<and>
         (\<forall>c. cb (item ti) = Returns c \<longrightarrow>
            success (m_results t' ! j) = (c \<noteq> expectedToFail ti) \<and>
            error (m_results t' ! j) =
              (if c \<noteq> expectedToFail ti then []
               else if expectedToFail ti then ''Test unexpectedly passed'' else ''Test failed'')) \<and>
         (\<forall>m. cb (item ti) = ThrowsStd m \<longrightarrow>
            \<not> success (m_results t' ! j) \<and> error (m_results t' ! j) = m)"
proof -
  from run_Inr [OF assms(1)] assms(2)
  obtain rs where rs: "t' = t\<lparr>m_results := rs\<rparr>"
    "\<forall>i<length (m_testItems t). \<exists>r0.
        try_callback cb (snd (m_testItems t ! i))
          (initial_result (fst (m_testItems t ! i)) (snd (m_testItems t ! i))) = Inr r0 \<and>
        rs ! i = r0\<lparr>duration := duration_cast_ms (clk (1 + 2 * i + 1) - clk (1 + 2 * i))\<rparr>"
    by auto
  from rs(2) assms(3,4) obtain r0 where r0:
    "try_callback cb ti (initial_result nm ti) = Inr r0"
    "rs ! j = r0\<lparr>duration := duration_cast_ms (clk (1 + 2 * j + 1) - clk (1 + 2 * j))\<rparr>"
    by force
  have k: "1 + 2 * j + 1 = 2 * j + 2" "1 + 2 * j = 2 * j + 1"
    by simp_all
  from r0 show ?thesis
    unfolding rs(1) k
    by (cases "cb (item ti)") (auto simp: try_callback_def initial_result_def Let_def split: if_splits)
qed

lemma std_exception_run_results:
  assumes "m_testCallback t = Some cb"
    and "\<forall>x\<in>set (m_testItems t). cb (item (snd x)) \<noteq> ThrowsOther"
    and "i < length (m_testItems t)"
    and "cb (item (snd (m_testItems t ! i))) = ThrowsStd msg"
  shows "\<exists>b t'. run clk t = (Inr b, t') \<and> \<not> b \<and>
           m_testItems t' = m_testItems t \<and>
           map TestResult.name (m_results t') = map fst (m_testItems t) \<and>
           \<not> success (m_results t' ! i) \<and> error (m_results t' ! i) = msg \<and>
           wasExpectedToFail (m_results t' ! i) = expectedToFail (snd (m_testItems t ! i)) \<and>
           (\<forall>j<length (m_testItems t).
              (\<forall>c. cb (item (snd (m_testItems t ! j))) = Returns c \<longrightarrow>
                 success (m_results t' ! j) = (c \<noteq> expectedToFail (snd (m_testItems t ! j)))) \<and>
              (\<forall>m. cb (item (snd (m_testItems t ! j))) = ThrowsStd m \<longrightarrow>
                 \<not> success (m_results t' ! j) \<and> error (m_results t' ! j) = m))"
proof -
  from run_returns [OF assms(1,2)] obtain b t' where r: "run clk t = (Inr b, t')"
    by blast
  note res = run_Inr_result [OF r assms(1)]
  from run_Inr [OF r] have st: "m_testItems t' = m_testItems t"
    and len: "length (m_results t') = length (m_testItems t)"
    by auto
  have "TestResult.name (m_results t' ! j) = fst (m_testItems t ! j)" if "j < length (m_testItems t)" for j
    using res [OF that, of "fst (m_testItems t ! j)" "snd (m_testItems t ! j)"] by simp
  with len have names: "map TestResult.name (m_results t') = map fst (m_testItems t)"
    by (intro nth_equalityI) simp_all
  from res [OF assms(3), of "fst (m_testItems t ! i)" "snd (m_testItems t ! i)"] assms(4)
  have ri: "\<not> success (m_results t' ! i)" "error (m_results t' ! i) = msg"
    "wasExpectedToFail (m_results t' ! i) = expectedToFail (snd (m_testItems t ! i))"
    by simp_all
  from assms(3) len have "m_results t' ! i \<in> set (m_results t')"
    by simp
  with ri(1) have "\<not> (\<forall>r\<in>set (m_results t'). success r)"
    by blast
  moreover from run_Inr [OF r] have "b = (length (filter success (m_results t')) = length (m_results t'))"
    by auto
  ultimately have nb: "\<not> b"
    by (simp add: length_filter_all)
  have all: "(\<forall>c. cb (item (snd (m_testItems t ! j))) = Returns c \<longrightarrow>
                 success (m_results t' ! j) = (c \<noteq> expectedToFail (snd (m_testItems t ! j)))) \<and>
              (\<forall>m. cb (item (snd (m_testItems t ! j))) = ThrowsStd m \<longrightarrow>
                 \<not> success (m_results t' ! j) \<and> error (m_results t' ! j) = m)"
    if "j < length (m_testItems t)" for j
    using res [OF that, of "fst (m_testItems t ! j)" "snd (m_testItems t ! j)"] by simp
  from r nb st names ri all show ?thesis
    by blast
qed

text \<open>
  What the handler captures. Let a callback be set whose invocation for the item
  at position \<open>i\<close> throws a \<open>std::exception\<close> with the message \<open>msg\<close>. Whenever the
  run returns, it returns false, the result log has one result per item of the
  store, in order and under the item's key; the result of item \<open>i\<close> is a failure
  with the error \<open>msg\<close>, whatever its flag; and the result of every item is that
  of its own invocation. The run returns exactly when no invocation throws an
  object that is not a \<open>std::exception\<close>: an exception with a message never ends
  the run.
\<close>

theorem std_exception_is_captured:
  assumes "m_testCallback t = Some cb"
    and "i < length (m_testItems t)"
    and "cb (item (snd (m_testItems t ! i))) = ThrowsStd msg"
  shows "(\<forall>b t'. run clk t = (Inr b, t') \<longrightarrow>
           \<not> b \<and>
           m_testItems t' = m_testItems t \<and>
           map TestResult.name (m_results t') = map fst (m_testItems t) \<and>
           \<not> success (m_results t' ! i) \<and> error (m_results t' ! i) = msg \<and>
           wasExpectedToFail (m_results t' ! i) = expectedToFail (snd (m_testItems t ! i)) \<and>
           (\<forall>j<length (m_testItems t).
              (\<forall>c. cb (item (snd (m_testItems t ! j))) = Returns c \<longrightarrow>
                 success (m_results t' ! j) = (c \<noteq> expectedToFail (snd (m_testItems t ! j)))) \<and>
              (\<forall>m. cb (item (snd (m_testItems t ! j))) = ThrowsStd m \<longrightarrow>
                 \<not> success (m_results t' ! j) \<and> error (m_results t' ! j) = m))) \<and>
         ((\<exists>b t'. run clk t = (Inr b, t')) \<longleftrightarrow>
          (\<forall>x\<in>set (m_testItems t). cb (item (snd x)) \<noteq> ThrowsOther))"
proof -
  note returns = run_returns_iff [OF assms(1), of clk]
  have "\<not> b \<and>
    m_testItems t' = m_testItems t \<and>
    map TestResult.name (m_results t') = map fst (m_testItems t) \<and>
    \<not> success (m_results t' ! i) \<and> error (m_results t' ! i) = msg \<and>
    wasExpectedToFail (m_results t' ! i) = expectedToFail (snd (m_testItems t ! i)) \<and>
    (\<forall>j<length (m_testItems t).
       (\<forall>c. cb (item (snd (m_testItems t ! j))) = Returns c \<longrightarrow>
          success (m_results t' ! j) = (c \<noteq> expectedToFail (snd (m_testItems t ! j)))) \<and>
       (\<forall>m. cb (item (snd (m_testItems t ! j))) = ThrowsStd m \<longrightarrow>
          \<not> success (m_results t' ! j) \<and> error (m_results t' ! j) = m))"
    if r: "run clk t = (Inr b, t')" for b t'
  proof -
    from r returns have "\<forall>x\<in>set (m_testItems t). cb (item (snd x)) \<noteq> ThrowsOther"
      by blast
    from std_exception_run_results [OF assms(1) this assms(2,3), of clk] r show ?thesis
      by auto
  qed
  with returns show ?thesis
    by blast
qed

text \<open>
  The store \<open>{a: 1, z: 0 expected to fail, c: 2}\<close> with a predicate that throws for
  0: \<open>z\<close> fails with the message thrown although it is expected to fail, and \<open>c\<close>,
  which comes after it, passes.
\<close>

theorem std_exception_is_captured_witness:
  "fst (run clock_ms fault_store) = Inr False \<and>
   map TestResult.name (m_results (snd (run clock_ms fault_store))) = [''a'', ''z'', ''c''] \<and>
   expectedToFail (snd (m_testItems fault_store ! 1)) \<and>
   \<not> success (m_results (snd (run clock_ms fault_store)) ! 1) \<and>
   error (m_results (snd (run clock_ms fault_store)) ! 1) = ''division by zero'' \<and>
   success (m_results (snd (run clock_ms fault_store)) ! 2)"
proof -
  have store: "m_testItems fault_store =
      [(''a'', \<lparr>item = 1, TestItem.name = ''a'', TestItem.description = [], expectedToFail = False\<rparr>),
       (''z'', \<lparr>item = 0, TestItem.name = ''z'', TestItem.description = [], expectedToFail = True\<rparr>),
       (''c'', \<lparr>item = 2, TestItem.name = ''c'', TestItem.description = [], expectedToFail = False\<rparr>)]"
    by code_simp
  have c: "m_testCallback fault_store = Some reciprocal_positive"
    by (simp add: fault_store_def forEach_def)
  have o: "\<forall>x\<in>set (m_testItems fault_store). reciprocal_positive (item (snd x)) \<noteq> ThrowsOther"
    by (simp add: reciprocal_positive_def)
  have i: "1 < length (m_testItems fault_store)"
    by (simp add: store)
  have z: "reciprocal_positive (item (snd (m_testItems fault_store ! 1))) = ThrowsStd ''division by zero''"
    by (simp add: store reciprocal_positive_def)
  have two: "reciprocal_positive 2 = Returns True"
    by (simp add: reciprocal_positive_def)
  note th = std_exception_is_captured [OF c i z, where clk = clock_ms]
  from th o obtain b t' where r: "run clock_ms fault_store = (Inr b, t')"
    by blast
  with th have b: "\<not> b"
    and names: "map TestResult.name (m_results t') = map fst (m_testItems fault_store)"
    and r1: "\<not> success (m_results t' ! 1)" "error (m_results t' ! 1) = ''division by zero''"
    and rest: "\<forall>j<length (m_testItems fault_store).
              (\<forall>c. reciprocal_positive (item (snd (m_testItems fault_store ! j))) = Returns c \<longrightarrow>
                 success (m_results t' ! j) = (c \<noteq> expectedToFail (snd (m_testItems fault_store ! j))))"
    by simp_all
  from rest have "success (m_results t' ! 2)"
    by (simp add: store two)
  with r b names r1 show ?thesis
    by (simp add: store)
qed

text \<open>
  C3. Every fault raised by the predicate is to be captured in the result of
  its item, and the run is to go on. The handler of \<open>runTests\<close> is
  \<open>catch (const std::exception& e)\<close> alone: an object of another type thrown by
  the predicate leaves \<open>run()\<close>. In the store \<open>{a: 1, z: 0, c: 2}\<close> with a predicate
  that throws such an object for 0, the run ends with that object, the log has
  fewer results than the store has items, and \<open>z\<close> has no result.
\<close>

theorem run_aborts_on_other_object:
  "fst (run clock_ms abort_store) = Inl Uncaught \<and>
   length (m_testItems abort_store) = 3 \<and>
   length (m_results (snd (run clock_ms abort_store))) < 3 \<and>
   ''z'' \<notin> set (map TestResult.name (m_results (snd (run clock_ms abort_store))))"
proof -
  have "fst (run clock_ms abort_store) = Inl Uncaught"
    by code_simp
  moreover have "length (m_testItems abort_store) = 3"
    by code_simp
  moreover have "length (m_results (snd (run clock_ms abort_store))) = 1"
    by code_simp
  moreover have "map TestResult.name (m_results (snd (run clock_ms abort_store))) = [''a'']"
    by code_simp
  ultimately show ?thesis
    by simp
qed

section \<open>Fastest, slowest and slow tests\<close>

lemma first_min_step:
  assumes "first_min xs i m" and "i < length xs"
  shows "first_min xs (i + 1) (if duration_less (xs ! i) (xs ! m) then i else m)"
proof (cases "duration (xs ! i) < duration (xs ! m)")
  case True
  with assms(1) have "\<forall>j<i. duration (xs ! i) < duration (xs ! j)"
    unfolding first_min_def by (meson less_le_trans)
  moreover from this have "\<forall>j<i + 1. duration (xs ! i) \<le> duration (xs ! j)"
    by (auto simp: less_Suc_eq)
  ultimately show ?thesis
    using True by (simp add: first_min_def duration_less_def)
next
  case False
  with assms(1) have "\<forall>j<i + 1. duration (xs ! m) \<le> duration (xs ! j)"
    unfolding first_min_def by (auto simp: less_Suc_eq)
  with assms(1) False show ?thesis
    by (simp add: first_min_def duration_less_def)
qed

lemma last_max_step:
  assumes "last_max xs i M" and "i < length xs"
  shows "last_max xs (i + 1) (if duration_less (xs ! i) (xs ! M) then M else i)"
proof (cases "duration (xs ! i) < duration (xs ! M)")
  case True
  with assms(1) have "\<forall>j<i + 1. duration (xs ! j) \<le> duration (xs ! M)"
    and "\<forall>j<i + 1. M < j \<longrightarrow> duration (xs ! j) < duration (xs ! M)"
    unfolding last_max_def by (auto simp: less_Suc_eq)
  with assms(1) True show ?thesis
    by (simp add: last_max_def duration_less_def)
next
  case False
  with assms(1) have "\<forall>j<i. duration (xs ! j) \<le> duration (xs ! i)"
    unfolding last_max_def by (meson not_less order_trans)
  then have "\<forall>j<i + 1. duration (xs ! j) \<le> duration (xs ! i)"
    by (auto simp: less_Suc_eq)
  with False show ?thesis
    by (simp add: last_max_def duration_less_def)
qed

lemma minmax_scan_inv:
  "first_min xs i m \<Longrightarrow> last_max xs i M \<Longrightarrow> i \<le> length xs \<Longrightarrow>
   minmax_scan duration_less xs i m M = (m', M') \<Longrightarrow>
   first_min xs (length xs) m' \<and> last_max xs (length xs) M'"
proof (induction duration_less xs i m M rule: minmax_scan.induct)
  case (1 xs i m M)
  show ?case
  proof (cases "i < length xs")
    case True
    let ?m = "if duration_less (xs ! i) (xs ! m) then i else m"
    let ?M = "if duration_less (xs ! i) (xs ! M) then M else i"
    from "1.prems"(4) True have "minmax_scan duration_less xs (i + 1) ?m ?M = (m', M')"
      by (subst (asm) minmax_scan.simps) simp
    moreover from True have "i + 1 \<le> length xs" by simp
    ultimately show ?thesis
      using "1.hyps" [OF True first_min_step [OF "1.prems"(1) True] last_max_step [OF "1.prems"(2) True]]
      by blast
  next
    case False
    with "1.prems"(3) have "i = length xs" by simp
    moreover from "1.prems"(4) False have "m' = m" "M' = M"
      by (subst (asm) minmax_scan.simps, simp)+
    ultimately show ?thesis using "1.prems"(1,2) by simp
  qed
qed

lemma minmax_element_spec:
  assumes "xs \<noteq> []" and "minmax_element duration_less xs = (m, M)"
  shows "first_min xs (length xs) m \<and> last_max xs (length xs) M"
proof -
  from assms have s: "minmax_scan duration_less xs 1 0 0 = (m, M)"
    by (simp add: minmax_element_def)
  have "first_min xs 1 0" "last_max xs 1 0"
    by (simp_all add: first_min_def last_max_def)
  moreover from assms(1) have "1 \<le> length xs"
    by (cases xs) simp_all
  ultimately show ?thesis
    using minmax_scan_inv [OF _ _ _ s] by blast
qed

lemma total_test_time_sum: "total_test_time results = sum_list (map duration results)"
proof -
  have "foldl (\<lambda>sum result. sum + duration result) a results = a + sum_list (map duration results)" for a
    by (induction results arbitrary: a) simp_all
  then show ?thesis by (simp add: total_test_time_def)
qed

lemma total_test_time_nonneg: "\<forall>r\<in>set results. 0 \<le> duration r \<Longrightarrow> 0 \<le> total_test_time results"
  unfolding total_test_time_sum by (induction results) simp_all

lemma above_threshold: "int (3 * a div 2) < d \<longleftrightarrow> 1.5 * real a < real_of_int d"
proof -
  have "int (3 * a div 2) < d \<longleftrightarrow> 3 * int a < 2 * d"
    by (simp add: zdiv_int) linarith
  also have "\<dots> \<longleftrightarrow> real_of_int (3 * int a) < real_of_int (2 * d)"
    by (simp only: of_int_less_iff)
  also have "\<dots> \<longleftrightarrow> 1.5 * real a < real_of_int d"
    by simp linarith
  finally show ?thesis .
qed

text \<open>
  C7 (amended). For every non-empty result log whose durations are not negative
  and sum to less than \<open>2^63\<close> ms, the performance analysis shows as fastest the
  first result of the log with the least duration, as slowest the last result
  of the log with the greatest duration, as average the total test time divided
  by the number of results and truncated to whole milliseconds, and lists, in
  log order, exactly the results whose duration exceeds 1.5 times that average;
  among them is every result whose duration exceeds 1.5 times the mean duration.
\<close>

theorem performance_analysis_selection:
  assumes "results \<noteq> []" and "\<forall>r\<in>set results. 0 \<le> duration r"
    and "total_test_time results < 2 ^ 63"
  shows "\<exists>p m M. performance_analysis results (total_test_time results) = Some p \<and>
           m < length results \<and> fastest p = results ! m \<and>
           (\<forall>j<length results. duration (results ! m) \<le> duration (results ! j)) \<and>
           (\<forall>j<m. duration (results ! m) < duration (results ! j)) \<and>
           M < length results \<and> slowest p = results ! M \<and>
           (\<forall>j<length results. duration (results ! j) \<le> duration (results ! M)) \<and>
           (\<forall>j<length results. M < j \<longrightarrow> duration (results ! j) < duration (results ! M)) \<and>
           int (avgTime p) = total_test_time results div int (length results) \<and>
           slowTests p = filter (\<lambda>r. 1.5 * real (avgTime p) < real_of_int (duration r)) results \<and>
           (\<forall>r\<in>set results.
              1.5 * (real_of_int (total_test_time results) / real (length results))
                < real_of_int (duration r) \<longrightarrow>
              r \<in> set (slowTests p))"
proof -
  obtain m M where mm: "minmax_element duration_less results = (m, M)"
    by (cases "minmax_element duration_less results")
  from minmax_element_spec [OF assms(1) mm]
  have fm: "first_min results (length results) m" and lm: "last_max results (length results) M"
    by simp_all
  let ?total = "total_test_time results"
  define a where "a = nat (?total mod 2 ^ 64) div length results"
  define p where "p = \<lparr>slowest = results ! M, fastest = results ! m, avgTime = a,
    slowTests = filter (\<lambda>result. duration result > int (3 * a div 2)) results\<rparr>"
  from assms(1) mm have pa: "performance_analysis results ?total = Some p"
    by (simp add: performance_analysis_def p_def a_def Let_def)
  from total_test_time_nonneg [OF assms(2)] assms(3) have "?total mod 2 ^ 64 = ?total"
    by simp
  then have avg: "int a = ?total div int (length results)"
    using total_test_time_nonneg [OF assms(2)] by (simp add: a_def zdiv_int)
  have slow: "slowTests p = filter (\<lambda>r. 1.5 * real (avgTime p) < real_of_int (duration r)) results"
    by (simp add: p_def above_threshold)
  have sel: "avgTime p = a" "fastest p = results ! m" "slowest p = results ! M"
    by (simp_all add: p_def)
  have "real a \<le> real_of_int ?total / real (length results)"
    using real_of_int_div4 [of ?total "int (length results)"] avg [symmetric] by simp
  then have exact: "\<forall>r\<in>set results.
              1.5 * (real_of_int ?total / real (length results)) < real_of_int (duration r) \<longrightarrow>
              r \<in> set (slowTests p)"
    by (auto simp: slow sel(1))
  from fm have f: "m < length results"
    "\<forall>j<length results. duration (results ! m) \<le> duration (results ! j)"
    "\<forall>j<m. duration (results ! m) < duration (results ! j)"
    by (simp_all add: first_min_def)
  from lm have l: "M < length results"
    "\<forall>j<length results. duration (results ! j) \<le> duration (results ! M)"
    "\<forall>j<length results. M < j \<longrightarrow> duration (results ! j) < duration (results ! M)"
    by (simp_all add: last_max_def)
  from pa f l sel(2,3) avg slow exact show ?thesis
    unfolding sel(1) [symmetric] by blast
qed

text \<open>
  C7 as stated fails. The run of \<open>{a: 1, b: -1 expected to fail}\<close> on a clock that
  gives each test 1 ms: \<open>a\<close> and \<open>b\<close> tie, \<open>a\<close> is first in the log, and the slowest
  shown is \<open>b\<close>.
\<close>

theorem slowest_is_first_counterexample:
  "m_results (snd (run clock_ms (forEach positive scenario_store))) = tied_log \<and>
   duration (tied_log ! 0) = duration (tied_log ! 1) \<and>
   tied_log ! 1 \<noteq> tied_log ! 0 \<and>
   printed_performance clock_ms (forEach positive scenario_store) =
     Some \<lparr>slowest = tied_log ! 1, fastest = tied_log ! 0, avgTime = 1, slowTests = []\<rparr>"
proof -
  have "m_results (snd (run clock_ms (forEach positive scenario_store))) = tied_log"
    by code_simp
  moreover have "duration (tied_log ! 0) = duration (tied_log ! 1)"
    by code_simp
  moreover have "tied_log ! 1 \<noteq> tied_log ! 0"
    by code_simp
  moreover have "printed_performance clock_ms (forEach positive scenario_store) =
     Some \<lparr>slowest = tied_log ! 1, fastest = tied_log ! 0, avgTime = 1, slowTests = []\<rparr>"
    by code_simp
  ultimately show ?thesis by blast
qed

text \<open>
  A log of 1 ms and 2 ms: the average shown is 1 ms and the result of 2 ms is
  listed.
\<close>

theorem performance_analysis_selection_witness:
  "uneven_log \<noteq> [] \<and> total_test_time uneven_log = 3 \<and>
   map_option avgTime (performance_analysis uneven_log (total_test_time uneven_log)) = Some 1 \<and>
   map_option slowTests (performance_analysis uneven_log (total_test_time uneven_log)) =
     Some [uneven_log ! 1]"
proof -
  have ne: "uneven_log \<noteq> []"
    by (simp add: uneven_log_def)
  have pos: "\<forall>r\<in>set uneven_log. 0 \<le> duration r"
    by (simp add: uneven_log_def)
  have tot: "total_test_time uneven_log = 3"
    by (simp add: uneven_log_def total_test_time_def)
  then have small: "total_test_time uneven_log < 2 ^ 63"
    by simp
  from performance_analysis_selection [OF ne pos small] tot
  obtain p where p: "performance_analysis uneven_log (total_test_time uneven_log) = Some p"
    "int (avgTime p) = 3 div int (length uneven_log)"
    "slowTests p = filter (\<lambda>r. 1.5 * real (avgTime p) < real_of_int (duration r)) uneven_log"
    by auto
  from p(2) have a: "avgTime p = 1"
    by (simp add: uneven_log_def)
  with p(3) have "slowTests p = [uneven_log ! 1]"
    by (simp add: uneven_log_def)
  with ne tot p(1) a show ?thesis
    by simp
qed

section \<open>The pass rate\<close>

lemma passed_le_results: "getPassedCount t \<le> length (m_results t)"
  by (simp add: getPassedCount_def)

lemma two_roundings:
  fixes q e :: real
  assumes "0 \<le> q" and "0 \<le> e"
    and r: "\<bar>r - q\<bar> \<le> e * q"
    and s: "\<bar>s - r * 100\<bar> \<le> e * (r * 100)"
  shows "\<bar>s - 100 * q\<bar> \<le> (2 * e + e\<^sup>2) * (100 * q)"
proof -
  from r have "r \<le> q + e * q"
    by linarith
  with assms(2) have "e * (r * 100) \<le> e * ((q + e * q) * 100)"
    by (intro mult_left_mono) simp_all
  with s have "\<bar>s - r * 100\<bar> \<le> e * ((q + e * q) * 100)"
    by linarith
  moreover have "\<bar>s - 100 * q\<bar> \<le> \<bar>s - r * 100\<bar> + 100 * \<bar>r - q\<bar>"
  proof -
    have "\<bar>s - 100 * q\<bar> = \<bar>(s - r * 100) + 100 * (r - q)\<bar>"
      by (simp add: algebra_simps)
    also have "\<dots> \<le> \<bar>s - r * 100\<bar> + \<bar>100 * (r - q)\<bar>"
      by (rule abs_triangle_ineq)
    also have "\<bar>100 * (r - q)\<bar> = 100 * \<bar>r - q\<bar>"
      by (simp only: abs_mult)
    finally show ?thesis .
  qed
  moreover from r have "100 * \<bar>r - q\<bar> \<le> 100 * (e * q)"
    by simp
  ultimately have "\<bar>s - 100 * q\<bar> \<le> e * ((q + e * q) * 100) + 100 * (e * q)"
    by linarith
  also have "\<dots> = (2 * e + e\<^sup>2) * (100 * q)"
    by (simp add: algebra_simps power2_eq_square)
  finally show ?thesis .
qed

text \<open>
  C8 (amended). \<open>getPassRate()\<close> returns 0 whenever the result log is empty.
  Otherwise it returns the \<open>double\<close> that the code computes in its own order, the
  passed count divided by the number of results in the log, rounded, times 100,
  rounded again; this is within a relative error of \<open>2e + e\<^sup>2\<close> of 100 times the
  passed count divided by the number of results. Here the log has at most \<open>2^53\<close>
  results, and \<open>rnd\<close> is any rounding that is exact on the integers up to \<open>2^53\<close>
  and has a relative error of at most \<open>e\<close>, \<open>e\<close> at most one half, between \<open>2^-54\<close> and
  256; rounding to the nearest \<open>double\<close> is one, with \<open>e = 2^-53\<close>.
\<close>

theorem getPassRate_empty_log:
  assumes "0 \<le> e" and "e \<le> 1 / 2"
    and exact: "\<forall>k\<le>2 ^ 53. rnd (real k) = real k"
    and near: "\<forall>x. 1 / 2 ^ 54 \<le> x \<and> x \<le> 256 \<longrightarrow> \<bar>rnd x - x\<bar> \<le> e * x"
    and size: "length (m_results t) \<le> 2 ^ 53"
  shows "(m_results t = [] \<longrightarrow> getPassRate rnd t = 0) \<and>
         (m_results t \<noteq> [] \<longrightarrow>
            getPassRate rnd t =
              rnd (rnd (real (getPassedCount t) / real (length (m_results t))) * 100) \<and>
            \<bar>getPassRate rnd t - 100 * (real (getPassedCount t) / real (length (m_results t)))\<bar>
              \<le> (2 * e + e\<^sup>2) * (100 * (real (getPassedCount t) / real (length (m_results t)))))"
proof (intro conjI impI)
  show "getPassRate rnd t = 0" if "m_results t = []"
    using that by (simp add: getPassRate_def)
next
  assume ne: "m_results t \<noteq> []"
  let ?p = "getPassedCount t" and ?n = "length (m_results t)"
  let ?q = "real ?p / real ?n"
  from ne have n: "0 < ?n" by simp
  have pn: "?p \<le> ?n" by (rule passed_le_results)
  with size have "?p \<le> 2 ^ 53" by simp
  with exact size have ex: "rnd (real ?p) = real ?p" "rnd (real ?n) = real ?n"
    by blast+
  with ne show val: "getPassRate rnd t = rnd (rnd ?q * 100)"
    by (simp add: getPassRate_def)
  show "\<bar>getPassRate rnd t - 100 * ?q\<bar> \<le> (2 * e + e\<^sup>2) * (100 * ?q)"
  proof (cases "?p = 0")
    case True
    from exact have "rnd (real 0) = real 0" by blast
    then have "rnd 0 = 0" by simp
    with True val show ?thesis by simp
  next
    case False
    define q where "q = ?q"
    define r where "r = rnd q"
    define c :: real where "c = 1 / 2 ^ 54"
    have c: "0 \<le> c" "1 / 2 ^ 53 = 2 * c"
      by (simp_all add: c_def)
    from near have near': "\<And>x. c \<le> x \<Longrightarrow> x \<le> 256 \<Longrightarrow> \<bar>rnd x - x\<bar> \<le> e * x"
      by (simp add: c_def)
    from False have p: "1 \<le> real ?p" by simp
    from n pn have q1: "q \<le> 1" by (simp add: q_def)
    from size have "real ?n \<le> 2 ^ 53"
      by (metis of_nat_le_iff of_nat_numeral of_nat_power)
    with n have "1 / 2 ^ 53 \<le> 1 / real ?n"
      by (intro divide_left_mono) simp_all
    also from p n have "1 / real ?n \<le> q"
      unfolding q_def by (intro divide_right_mono) simp_all
    finally have q0: "2 * c \<le> q"
      unfolding c(2) .
    with c(1) have qpos: "0 \<le> q" and q0': "c \<le> q"
      by linarith+
    from q1 have "q \<le> 256" by simp
    with q0' have rq: "\<bar>r - q\<bar> \<le> e * q"
      unfolding r_def by (rule near')
    from assms(2) qpos have "e * q \<le> 1 / 2 * q"
      by (intro mult_right_mono) simp_all
    with rq have rl: "q / 2 \<le> r" and ru: "r \<le> 3 / 2 * q"
      by linarith+
    from rl q0 c(1) have lo: "c \<le> r * 100"
      by linarith
    from ru q1 have hi: "r * 100 \<le> 256"
      by linarith
    from lo hi have s: "\<bar>rnd (r * 100) - r * 100\<bar> \<le> e * (r * 100)"
      by (rule near')
    from two_roundings [OF qpos assms(1) rq s] val show ?thesis
      by (simp add: q_def r_def)
  qed
qed

lemma round_at_third_nat: "round_at_third (real k) = real k"
proof -
  have "real k \<noteq> 1 / 3"
  proof
    assume "real k = 1 / 3"
    then have "real (3 * k) = real 1" by simp
    then have "3 * k = 1" by (simp only: of_nat_eq_iff)
    then show False by presburger
  qed
  moreover have "real k \<noteq> 6004799503160661 / 18014398509481984 * 100"
  proof
    assume "real k = 6004799503160661 / 18014398509481984 * 100"
    then have "real (18014398509481984 * k) = real 600479950316066100" by simp
    then have eq: "18014398509481984 * k = 600479950316066100" by (simp only: of_nat_eq_iff)
    have "(8::nat) dvd 18014398509481984 * k" by (rule dvd_mult2) simp
    then have "(8::nat) dvd 600479950316066100" by (simp only: eq)
    then show False by simp
  qed
  ultimately show ?thesis by (simp add: round_at_third_def)
qed

lemma round_at_third_near:
  assumes "0 \<le> x"
  shows "\<bar>round_at_third x - x\<bar> \<le> 1 / 2 ^ 53 * x"
proof -
  consider "x = 1 / 3" | "x \<noteq> 1 / 3" "x = 6004799503160661 / 18014398509481984 * 100"
    | "x \<noteq> 1 / 3" "x \<noteq> 6004799503160661 / 18014398509481984 * 100"
    by blast
  then show ?thesis
  proof cases
    case 1
    then show ?thesis by (simp add: round_at_third_def)
  next
    case 2
    then show ?thesis by (simp add: round_at_third_def)
  next
    case 3
    with assms show ?thesis by (simp add: round_at_third_def)
  qed
qed

text \<open>
  C8 as stated fails: after a run of the store \<open>{a: 1}\<close> and \<open>remove("a")\<close> the store
  is empty and the pass rate is 100 (one of one, which no rounding changes).
\<close>

theorem getPassRate_empty_store_counterexample:
  "m_testItems run_then_remove = [] \<and> getPassRate round_at_third run_then_remove = 100"
proof -
  have "m_testItems run_then_remove = []"
    by code_simp
  moreover have "length (m_results run_then_remove) = 1" "getPassedCount run_then_remove = 1"
    by code_simp+
  then have "getPassRate round_at_third run_then_remove = 100"
    by (auto simp: getPassRate_def round_at_third_def)
  ultimately show ?thesis by simp
qed

text \<open>
  One result of three has passed: the pass rate is the \<open>double\<close>
  \<open>0x1.0aaaaaaaaaaaap+5\<close>, which is not \<open>100/3\<close> and is within the bound of it. A
  store that has not been run has an empty log and the pass rate 0.
\<close>

theorem getPassRate_empty_log_witness:
  "m_results one_of_three \<noteq> [] \<and> getPassedCount one_of_three = 1 \<and>
   length (m_results one_of_three) = 3 \<and>
   getPassRate round_at_third one_of_three = 2345624805922133 / 70368744177664 \<and>
   getPassRate round_at_third one_of_three \<noteq> 100 / 3 \<and>
   \<bar>getPassRate round_at_third one_of_three - 100 / 3\<bar>
     \<le> (2 * (1 / 2 ^ 53) + (1 / 2 ^ 53)\<^sup>2) * (100 / 3) \<and>
   m_results plain_store = [] \<and> getPassRate round_at_third plain_store = 0"
proof -
  have l: "length (m_results one_of_three) = 3" and p: "getPassedCount one_of_three = 1"
    by code_simp+
  from l have ne: "m_results one_of_three \<noteq> []"
    by auto
  have e: "m_results plain_store = []"
    by code_simp
  have h1: "(0::real) \<le> 1 / 2 ^ 53" and h2: "(1::real) / 2 ^ 53 \<le> 1 / 2"
    by simp_all
  have h3: "\<forall>k\<le>2 ^ 53. round_at_third (real k) = real k"
    by (simp add: round_at_third_nat)
  have h4: "\<forall>x. 1 / 2 ^ 54 \<le> x \<and> x \<le> 256 \<longrightarrow> \<bar>round_at_third x - x\<bar> \<le> 1 / 2 ^ 53 * x"
  proof (intro allI impI)
    fix x :: real assume "1 / 2 ^ 54 \<le> x \<and> x \<le> 256"
    then have "0 \<le> x" by (auto intro: order_trans [rotated])
    then show "\<bar>round_at_third x - x\<bar> \<le> 1 / 2 ^ 53 * x" by (rule round_at_third_near)
  qed
  have h5: "length (m_results one_of_three) \<le> 2 ^ 53"
    by (simp add: l)
  have h6: "length (m_results plain_store) \<le> 2 ^ 53"
    by (simp add: e)
  note th = getPassRate_empty_log [OF h1 h2 h3 h4]
  from th [OF h5] ne
  have both: "getPassRate round_at_third one_of_three =
      round_at_third (round_at_third (real (getPassedCount one_of_three) /
        real (length (m_results one_of_three))) * 100) \<and>
    \<bar>getPassRate round_at_third one_of_three -
      100 * (real (getPassedCount one_of_three) / real (length (m_results one_of_three)))\<bar>
     \<le> (2 * (1 / 2 ^ 53) + (1 / 2 ^ 53)\<^sup>2) *
        (100 * (real (getPassedCount one_of_three) / real (length (m_results one_of_three))))"
    by blast
  from both [THEN conjunct1]
  have v: "getPassRate round_at_third one_of_three = round_at_third (round_at_third (1 / 3) * 100)"
    by (simp add: l p)
  from both [THEN conjunct2]
  have b: "\<bar>getPassRate round_at_third one_of_three - 100 / 3\<bar>
     \<le> (2 * (1 / 2 ^ 53) + (1 / 2 ^ 53)\<^sup>2) * (100 / 3)"
    by (simp add: l p)
  from v have v': "getPassRate round_at_third one_of_three = 2345624805922133 / 70368744177664"
    by (simp add: round_at_third_def)
  then have d: "getPassRate round_at_third one_of_three \<noteq> 100 / 3"
    by simp
  from th [OF h6] e have z: "getPassRate round_at_third plain_store = 0"
    by simp
  from ne p l v' d b e z show ?thesis
    by blast
qed

section \<open>Insertion leaves existing entries alone\<close>

lemma contains_find_entry: "contains store k \<longleftrightarrow> find_entry store k \<noteq> None"
  by (induction store) (auto simp: contains_def)

lemma find_entry_append:
  "find_entry (xs @ ys) k = (case find_entry xs k of Some e \<Rightarrow> Some e | None \<Rightarrow> find_entry ys k)"
  by (induction xs) auto

lemma find_entry_try_emplace:
  "find_entry (try_emplace k v store) k' =
     (case find_entry store k' of Some e \<Rightarrow> Some e | None \<Rightarrow> if k' = k then Some v else None)"
  by (auto simp: try_emplace_def find_entry_append contains_find_entry split: option.splits)

lemma keys_try_emplace: "fst ` set (try_emplace k v store) = insert k (fst ` set store)"
  by (auto simp: try_emplace_def contains_def)

lemma unique_keys_try_emplace: "unique_keys store \<Longrightarrow> unique_keys (try_emplace k v store)"
  by (auto simp: try_emplace_def contains_def unique_keys_def)

lemma try_emplace_present: "contains store k \<Longrightarrow> try_emplace k v store = store"
  by (simp add: try_emplace_def)

lemma add_explicit:
  "nm \<noteq> [] \<Longrightarrow>
   add v nm desc t =
     t\<lparr>m_testItems :=
         try_emplace nm \<lparr>item = v, TestItem.name = nm, TestItem.description = desc,
                          expectedToFail = False\<rparr> (m_testItems t)\<rparr>"
  by (simp add: add_def)

lemma add_TestItem_explicit:
  "TestItem.name ti \<noteq> [] \<Longrightarrow>
   add_TestItem ti t = t\<lparr>m_testItems := try_emplace (TestItem.name ti) ti (m_testItems t)\<rparr>"
  by (simp add: add_TestItem_def)

lemma add_call_explicit:
  "call_name c \<noteq> [] \<Longrightarrow>
   m_testItems (add_calls [c] t) = try_emplace (call_name c) (call_item c) (m_testItems t)"
  by (cases c) (simp_all add: add_explicit add_TestItem_explicit)

lemma add_calls_Cons: "add_calls (c # calls) t = add_calls calls (add_calls [c] t)"
  by (cases c) simp_all

lemma add_calls_explicit:
  assumes "unique_keys (m_testItems t)" and "\<forall>c\<in>set calls. call_name c \<noteq> []"
  shows "unique_keys (m_testItems (add_calls calls t)) \<and>
         set (map fst (m_testItems (add_calls calls t))) =
           set (map fst (m_testItems t)) \<union> set (map call_name calls) \<and>
         (\<forall>k. find_entry (m_testItems (add_calls calls t)) k =
            (case find_entry (m_testItems t) k of
               Some e \<Rightarrow> Some e
             | None \<Rightarrow> map_option call_item (find (\<lambda>c. call_name c = k) calls)))"
  using assms
proof (induction calls arbitrary: t)
  case Nil
  then show ?case by (simp split: option.splits)
next
  case (Cons c calls)
  from Cons.prems(2) have nm: "call_name c \<noteq> []" by simp
  let ?t = "add_calls [c] t"
  have st: "m_testItems ?t = try_emplace (call_name c) (call_item c) (m_testItems t)"
    by (rule add_call_explicit [OF nm])
  have u: "unique_keys (m_testItems ?t)"
    by (simp only: st unique_keys_try_emplace Cons.prems(1))
  from Cons.prems(2) have "\<forall>c\<in>set calls. call_name c \<noteq> []" by simp
  from Cons.IH [OF u this]
  have ih1: "unique_keys (m_testItems (add_calls calls ?t))"
    and ih2: "set (map fst (m_testItems (add_calls calls ?t))) =
           set (map fst (m_testItems ?t)) \<union> set (map call_name calls)"
    and ih3: "\<And>k. find_entry (m_testItems (add_calls calls ?t)) k =
            (case find_entry (m_testItems ?t) k of
               Some e \<Rightarrow> Some e
             | None \<Rightarrow> map_option call_item (find (\<lambda>c. call_name c = k) calls))"
    by simp_all
  have split: "add_calls (c # calls) t = add_calls calls ?t"
    by (rule add_calls_Cons)
  from ih2 have keys: "set (map fst (m_testItems (add_calls (c # calls) t))) =
           set (map fst (m_testItems t)) \<union> set (map call_name (c # calls))"
    unfolding split by (simp add: st keys_try_emplace)
  have "find_entry (m_testItems (add_calls (c # calls) t)) k =
            (case find_entry (m_testItems t) k of
               Some e \<Rightarrow> Some e
             | None \<Rightarrow> map_option call_item (find (\<lambda>c. call_name c = k) (c # calls)))" for k
    unfolding split ih3 st find_entry_try_emplace
    by (cases "find_entry (m_testItems t) k") auto
  with ih1 keys show ?case
    unfolding split by blast
qed

lemma add_container_TestItem_calls:
  "add_container_TestItem items namePrefix t = add_calls (map AddItem items) t"
  by (induction items arbitrary: t) simp_all

lemma add_keeps:
  "find_entry (m_testItems t) k = Some e \<Longrightarrow> find_entry (m_testItems (add v nm desc t)) k = Some e"
  by (simp add: add_def Let_def find_entry_try_emplace)

lemma add_TestItem_keeps:
  "find_entry (m_testItems t) k = Some e \<Longrightarrow> find_entry (m_testItems (add_TestItem ti t)) k = Some e"
  by (simp add: add_TestItem_def Let_def find_entry_try_emplace)

lemma add_container_keeps:
  "find_entry (m_testItems t) k = Some e \<Longrightarrow>
   find_entry (m_testItems (add_container vs namePrefix t)) k = Some e"
  by (induction vs arbitrary: t) (simp_all add: add_keeps)

lemma add_container_TestItem_keeps:
  "find_entry (m_testItems t) k = Some e \<Longrightarrow>
   find_entry (m_testItems (add_container_TestItem items namePrefix t)) k = Some e"
  by (induction items arbitrary: t) (simp_all add: add_TestItem_keeps)

text \<open>
  C4. \<open>add\<close> under an explicit name that is a key of the store changes nothing,
  for the value overload and for the \<open>TestItem\<close> overload; no \<open>add\<close>, whatever its
  name, changes the entry found under a key that is present, and neither does
  \<open>add\<close> of a container or of an initializer list. After a sequence of
  calls of \<open>add(value, name, description)\<close> and \<open>add(TestItem)\<close>, in any mixture,
  with explicit names, on a store with unique keys: the keys are unique, they
  are the keys there were and the names added, the store has as many entries as
  there are distinct names among them, and \<open>find\<close> gives, for a key that was
  present, the entry there was, and for a new name the item of the first call
  under that name (for the value overload its value and description, not
  expected to fail; for the \<open>TestItem\<close> overload the item as it was passed). Adding
  a container of test items is the sequence of \<open>add(TestItem)\<close> calls of its
  elements.
\<close>

theorem add_insert_if_absent:
  "(nm \<noteq> [] \<and> contains (m_testItems t) nm \<longrightarrow> add v nm desc t = t) \<and>
   (TestItem.name ti \<noteq> [] \<and> contains (m_testItems t) (TestItem.name ti) \<longrightarrow> add_TestItem ti t = t) \<and>
   (\<forall>k e. find_entry (m_testItems t) k = Some e \<longrightarrow>
      find_entry (m_testItems (add v nm desc t)) k = Some e \<and>
      find_entry (m_testItems (add_TestItem ti t)) k = Some e \<and>
      find_entry (m_testItems (add_container vs namePrefix t)) k = Some e \<and>
      find_entry (m_testItems (add_initializer_list vs namePrefix t)) k = Some e \<and>
      find_entry (m_testItems (add_container_TestItem items namePrefix t)) k = Some e) \<and>
   add_container_TestItem items namePrefix t = add_calls (map AddItem items) t \<and>
   (unique_keys (m_testItems t) \<and> (\<forall>c\<in>set calls. call_name c \<noteq> []) \<longrightarrow>
      unique_keys (m_testItems (add_calls calls t)) \<and>
      set (map fst (m_testItems (add_calls calls t))) =
        set (map fst (m_testItems t)) \<union> set (map call_name calls) \<and>
      length (m_testItems (add_calls calls t)) =
        card (set (map fst (m_testItems t)) \<union> set (map call_name calls)) \<and>
      (\<forall>k. find_entry (m_testItems (add_calls calls t)) k =
         (case find_entry (m_testItems t) k of
            Some e \<Rightarrow> Some e
          | None \<Rightarrow> map_option call_item (find (\<lambda>c. call_name c = k) calls))))"
proof (intro conjI impI allI)
  assume "nm \<noteq> [] \<and> contains (m_testItems t) nm"
  then show "add v nm desc t = t"
    by (simp add: add_explicit try_emplace_present)
next
  assume "TestItem.name ti \<noteq> [] \<and> contains (m_testItems t) (TestItem.name ti)"
  then show "add_TestItem ti t = t"
    by (simp add: add_TestItem_def try_emplace_present)
next
  fix k e assume "find_entry (m_testItems t) k = Some e"
  then show "find_entry (m_testItems (add v nm desc t)) k = Some e"
    by (simp add: add_def Let_def find_entry_try_emplace)
next
  fix k e assume "find_entry (m_testItems t) k = Some e"
  then show "find_entry (m_testItems (add_TestItem ti t)) k = Some e"
    by (simp add: add_TestItem_def Let_def find_entry_try_emplace)
next
  fix k e assume "find_entry (m_testItems t) k = Some e"
  then show "find_entry (m_testItems (add_container vs namePrefix t)) k = Some e"
    by (rule add_container_keeps)
next
  fix k e assume "find_entry (m_testItems t) k = Some e"
  then show "find_entry (m_testItems (add_initializer_list vs namePrefix t)) k = Some e"
    unfolding add_initializer_list_def by (rule add_container_keeps)
next
  fix k e assume "find_entry (m_testItems t) k = Some e"
  then show "find_entry (m_testItems (add_container_TestItem items namePrefix t)) k = Some e"
    by (rule add_container_TestItem_keeps)
next
  show "add_container_TestItem items namePrefix t = add_calls (map AddItem items) t"
    by (rule add_container_TestItem_calls)
next
  assume a: "unique_keys (m_testItems t) \<and> (\<forall>c\<in>set calls. call_name c \<noteq> [])"
  then have r: "unique_keys (m_testItems (add_calls calls t))"
    "set (map fst (m_testItems (add_calls calls t))) =
        set (map fst (m_testItems t)) \<union> set (map call_name calls)"
    using add_calls_explicit [of t calls] by blast+
  from r(1) show "unique_keys (m_testItems (add_calls calls t))" .
  from r(2) show "set (map fst (m_testItems (add_calls calls t))) =
        set (map fst (m_testItems t)) \<union> set (map call_name calls)" .
  from r(1) have "length (m_testItems (add_calls calls t)) =
      card (set (map fst (m_testItems (add_calls calls t))))"
    using distinct_card [of "map fst (m_testItems (add_calls calls t))"]
    by (simp add: unique_keys_def)
  with r(2) show "length (m_testItems (add_calls calls t)) =
        card (set (map fst (m_testItems t)) \<union> set (map call_name calls))"
    by simp
  fix k
  from a show "find_entry (m_testItems (add_calls calls t)) k =
         (case find_entry (m_testItems t) k of
            Some e \<Rightarrow> Some e
          | None \<Rightarrow> map_option call_item (find (\<lambda>c. call_name c = k) calls))"
    using add_calls_explicit [of t calls] by blast
qed

text \<open>
  Four calls on the empty store, \<open>a\<close> by value, \<open>b\<close> and \<open>a\<close> as test items and \<open>b\<close>
  by value: two entries; \<open>a\<close> holds the value and description of the first call
  and \<open>b\<close> the test item of the second. On the store
  \<open>{a: 1, b: -1 expected to fail}\<close>, \<open>add(9, "b", "other")\<close> changes nothing.
\<close>

theorem add_insert_if_absent_witness:
  "length (m_testItems (add_calls duplicate_calls RySimpleRangeTester)) = 2 \<and>
   find_entry (m_testItems (add_calls duplicate_calls RySimpleRangeTester)) ''a'' =
     Some \<lparr>item = 1, TestItem.name = ''a'', TestItem.description = ''first'', expectedToFail = False\<rparr> \<and>
   find_entry (m_testItems (add_calls duplicate_calls RySimpleRangeTester)) ''b'' =
     Some \<lparr>item = 2, TestItem.name = ''b'', TestItem.description = ''item'', expectedToFail = True\<rparr> \<and>
   contains (m_testItems scenario_store) ''b'' \<and>
   add 9 ''b'' ''other'' scenario_store = scenario_store"
proof -
  let ?t = "RySimpleRangeTester :: int RySimpleRangeTester"
  have u: "unique_keys (m_testItems ?t)"
    by (simp add: RySimpleRangeTester_def unique_keys_def)
  have e: "\<forall>c\<in>set duplicate_calls. call_name c \<noteq> []"
    by (simp add: duplicate_calls_def)
  have s: "m_testItems ?t = []"
    by (simp add: RySimpleRangeTester_def)
  have "{''a'', ''b'', ''a'', ''b''} = {''a'', ''b''}"
    by auto
  then have k: "card (set (map fst (m_testItems ?t)) \<union> set (map call_name duplicate_calls)) = 2"
    by (simp add: s duplicate_calls_def)
  have fa: "map_option call_item (find (\<lambda>c. call_name c = ''a'') duplicate_calls) =
      Some \<lparr>item = 1, TestItem.name = ''a'', TestItem.description = ''first'', expectedToFail = False\<rparr>"
    by (simp add: duplicate_calls_def)
  have fb: "map_option call_item (find (\<lambda>c. call_name c = ''b'') duplicate_calls) =
      Some \<lparr>item = 2, TestItem.name = ''b'', TestItem.description = ''item'', expectedToFail = True\<rparr>"
    by (simp add: duplicate_calls_def)
  from add_insert_if_absent [where t = ?t and calls = duplicate_calls] u e
  have len: "length (m_testItems (add_calls duplicate_calls ?t)) =
        card (set (map fst (m_testItems ?t)) \<union> set (map call_name duplicate_calls))"
    and find: "\<And>k. find_entry (m_testItems (add_calls duplicate_calls ?t)) k =
         (case find_entry (m_testItems ?t) k of
            Some e \<Rightarrow> Some e
          | None \<Rightarrow> map_option call_item (find (\<lambda>c. call_name c = k) duplicate_calls))"
    by blast+
  from len have a: "length (m_testItems (add_calls duplicate_calls ?t)) = 2"
    by (simp only: k)
  from find [of "''a''"] have b: "find_entry (m_testItems (add_calls duplicate_calls ?t)) ''a'' =
     Some \<lparr>item = 1, TestItem.name = ''a'', TestItem.description = ''first'', expectedToFail = False\<rparr>"
    by (simp add: s fa)
  from find [of "''b''"] have b': "find_entry (m_testItems (add_calls duplicate_calls ?t)) ''b'' =
     Some \<lparr>item = 2, TestItem.name = ''b'', TestItem.description = ''item'', expectedToFail = True\<rparr>"
    by (simp add: s fb)
  have c: "contains (m_testItems scenario_store) ''b''"
    by code_simp
  with add_insert_if_absent [where nm = "''b''" and t = scenario_store and v = 9 and desc = "''other''"]
  have "add 9 ''b'' ''other'' scenario_store = scenario_store"
    by simp
  with a b b' c show ?thesis by simp
qed

section \<open>Keys and names\<close>

lemma store_ok_try_emplace:
  "store_ok t \<Longrightarrow> TestItem.name v = k \<Longrightarrow> store_ok (t\<lparr>m_testItems := try_emplace k v (m_testItems t)\<rparr>)"
  by (auto simp: store_ok_def keys_are_names_def unique_keys_def try_emplace_def contains_def)

lemma store_ok_add: "store_ok t \<Longrightarrow> store_ok (add v nm desc t)"
  unfolding add_def Let_def by (rule store_ok_try_emplace) simp_all

lemma store_ok_add_TestItem: "store_ok t \<Longrightarrow> store_ok (add_TestItem ti t)"
  unfolding add_TestItem_def Let_def by (rule store_ok_try_emplace) simp_all

lemma store_ok_add_container: "store_ok t \<Longrightarrow> store_ok (add_container items namePrefix t)"
  by (induction items arbitrary: t) (simp_all add: store_ok_add)

lemma store_ok_add_container_TestItem:
  "store_ok t \<Longrightarrow> store_ok (add_container_TestItem items namePrefix t)"
  by (induction items arbitrary: t) (simp_all add: store_ok_add_TestItem)

lemma store_ok_filter:
  "store_ok t \<Longrightarrow> store_ok (t\<lparr>m_testItems := filter P (m_testItems t)\<rparr>)"
  by (auto simp: store_ok_def keys_are_names_def unique_keys_def distinct_map_filter)

lemma expect_entry_names:
  "keys_are_names store \<Longrightarrow> keys_are_names (expect_entry nm store)"
  by (induction store) (auto simp: keys_are_names_def split: if_splits)

lemma store_ok_expect: "store_ok t \<Longrightarrow> store_ok (expect nm t)"
  by (simp add: store_ok_def expect_def expect_entry_names unique_keys_def expect_entry_keys)

lemma store_ok_expectIf: "store_ok t \<Longrightarrow> store_ok (expectIf pred t)"
proof -
  have keys: "map (fst \<circ> (\<lambda>(k, v). (k, if pred v then v\<lparr>expectedToFail := True\<rparr> else v))) s = map fst s"
    for s :: "(string \<times> 'a TestItem) list"
    by (induction s) auto
  show "store_ok t \<Longrightarrow> store_ok (expectIf pred t)"
    by (auto simp: store_ok_def expectIf_def unique_keys_def keys_are_names_def keys)
qed

lemma run_store: "m_testItems (snd (run clk t)) = m_testItems t"
  by (auto simp: run_def runTests_def split: option.splits prod.splits)

lemma store_ok_apply: "store_ok t \<Longrightarrow> store_ok (apply_operation x t)"
proof (cases x)
  case (Run clk)
  assume "store_ok t"
  with Run show ?thesis by (simp add: store_ok_def run_store)
qed (simp_all add: store_ok_add store_ok_add_TestItem store_ok_add_container
    add_initializer_list_def store_ok_add_container_TestItem remove_def removeIf_def
    store_ok_filter store_ok_expect store_ok_expectIf,
    simp_all add: store_ok_def forEach_def clear_def keys_are_names_def unique_keys_def)

lemma store_ok_fold: "store_ok t \<Longrightarrow> store_ok (fold apply_operation ops t)"
  by (induction ops arbitrary: t) (simp_all add: store_ok_apply)

lemma store_ok_initial: "store_ok RySimpleRangeTester"
  by (simp add: store_ok_def RySimpleRangeTester_def keys_are_names_def unique_keys_def)

text \<open>The keys of a store reached by public operations are unique.\<close>

lemma reachable_unique_keys: "unique_keys (m_testItems (fold apply_operation ops RySimpleRangeTester))"
  using store_ok_fold [OF store_ok_initial, of ops] by (simp add: store_ok_def)

text \<open>
  C10. After every sequence of public operations on a new tester, every entry
  of the store is stored under the name its item carries.
\<close>

theorem key_is_item_name:
  "\<forall>(k, v)\<in>set (m_testItems (fold apply_operation ops RySimpleRangeTester)). TestItem.name v = k"
  using store_ok_fold [OF store_ok_initial, of ops] by (simp add: store_ok_def keys_are_names_def)

lemma find_entry_in_store: "find_entry store k = Some v \<Longrightarrow> (k, v) \<in> set store"
  by (induction store) (auto split: if_splits)

text \<open>
  A sequence that uses every overload of \<open>add\<close>, \<open>expect\<close>, \<open>expectIf\<close>, \<open>remove\<close> and
  \<open>removeIf\<close>: the entry stored under the generated key \<open>Test_2\<close> carries the
  name \<open>Test_2\<close>.
\<close>

theorem key_is_item_name_witness:
  "find_entry (m_testItems (fold apply_operation mixed_operations RySimpleRangeTester)) ''Test_2'' =
     Some \<lparr>item = 6, TestItem.name = ''Test_2'', TestItem.description = ''generated'',
           expectedToFail = True\<rparr>"
proof -
  let ?s = "m_testItems (fold apply_operation mixed_operations RySimpleRangeTester)"
  have "map_option (\<lambda>v. (item v, TestItem.description v, expectedToFail v)) (find_entry ?s ''Test_2'') =
      Some (6, ''generated'', True)"
    by code_simp
  then obtain v where v: "find_entry ?s ''Test_2'' = Some v" "item v = 6"
    "TestItem.description v = ''generated''" "expectedToFail v"
    by auto
  from find_entry_in_store [OF v(1)] key_is_item_name [of mixed_operations]
  have "TestItem.name v = ''Test_2''"
    by auto
  with v show ?thesis
    by simp
qed

end
